theory Spec2Isabelle
  imports Complex_Main
begin

chapter \<open>The embedding\<close>

section \<open>Core types (types/index.ts)\<close>

datatype MotionName =
    haru_g_idle
  | haru_g_m01 | haru_g_m02 | haru_g_m03 | haru_g_m04 | haru_g_m05
  | haru_g_m06 | haru_g_m07 | haru_g_m08 | haru_g_m09 | haru_g_m10
  | haru_g_m11 | haru_g_m12 | haru_g_m13 | haru_g_m14 | haru_g_m15
  | haru_g_m16 | haru_g_m17 | haru_g_m18 | haru_g_m19 | haru_g_m20
  | haru_g_m21 | haru_g_m22 | haru_g_m23 | haru_g_m24 | haru_g_m25
  | haru_g_m26

text \<open>The three string-literal unions share the words idle, listening and emphasis, so
  every constructor carries the initial of its type.\<close>

datatype GestureType =
  G_idle | G_listening | G_greeting | G_pointLeft | G_pointRight | G_emphasis | G_warning

datatype HaruState = H_idle | H_listening | H_speaking | H_gesturing

datatype SegmentType = T_text | T_image | T_emphasis

text \<open>Optional fields of the interface (\<open>gesture?\<close>, \<open>imageQuery?\<close>, \<open>duration?\<close>) are options;
  \<open>None\<close> is the absent field (\<open>undefined\<close>).\<close>

record TeachingSegment =
  seg_type :: SegmentType
  content :: string
  gesture :: "GestureType option"
  imageQuery :: "string option"
  seg_duration :: "real option"

record MotionConfig =
  name :: MotionName
  mc_gesture :: GestureType
  priority :: nat
  duration :: real
  description :: string

section \<open>Motion selector (config/motionMapping)\<close>

text \<open>\<open>MOTION_MAPPING\<close> is an object indexed by gesture; it is kept as an association list
  and read through \<open>map_of\<close>, so that a key without an entry is a value (\<open>None\<close>) and the
  guard of \<open>getMotionForGesture\<close> has something to test.\<close>

definition MOTION_MAPPING :: "(GestureType \<times> MotionName list) list" where
  "MOTION_MAPPING =
    [(G_idle, [haru_g_idle]),
     (G_listening, [haru_g_idle]),
     (G_greeting, [haru_g_m01, haru_g_m02, haru_g_m03, haru_g_m04, haru_g_m05]),
     (G_pointLeft, [haru_g_m06, haru_g_m07, haru_g_m08, haru_g_m09, haru_g_m13, haru_g_m14,
                    haru_g_m15, haru_g_m22]),
     (G_pointRight, [haru_g_m16, haru_g_m17, haru_g_m18, haru_g_m19, haru_g_m23]),
     (G_emphasis, [haru_g_m10, haru_g_m11, haru_g_m12, haru_g_m24]),
     (G_warning, [haru_g_m20, haru_g_m21])]"

definition mk_config :: "MotionName \<Rightarrow> GestureType \<Rightarrow> nat \<Rightarrow> real \<Rightarrow> string \<Rightarrow> MotionConfig" where
  "mk_config n g p d t =
     \<lparr>name = n, mc_gesture = g, priority = p, duration = d, description = t\<rparr>"

definition MOTION_CONFIGS :: "MotionConfig list" where
  "MOTION_CONFIGS =
    [mk_config haru_g_idle G_idle 0 10 ''Neutral idle pose'',
     mk_config haru_g_m01 G_greeting 5 2.9 ''Head nod greeting'',
     mk_config haru_g_m02 G_greeting 5 3 ''Wave greeting'',
     mk_config haru_g_m03 G_greeting 5 3 ''Bow greeting'',
     mk_config haru_g_m04 G_greeting 5 3 ''Friendly wave'',
     mk_config haru_g_m05 G_greeting 5 3 ''Welcome gesture'',
     mk_config haru_g_m06 G_pointLeft 3 4 ''Point left casual'',
     mk_config haru_g_m07 G_pointLeft 3 4 ''Point left formal'',
     mk_config haru_g_m08 G_pointLeft 3 4 ''Gesture left explain'',
     mk_config haru_g_m09 G_pointLeft 3 4 ''Indicate left'',
     mk_config haru_g_m10 G_emphasis 4 5.5 ''Excited emphasis'',
     mk_config haru_g_m11 G_emphasis 4 4 ''Important point'',
     mk_config haru_g_m12 G_emphasis 4 4 ''Key concept'',
     mk_config haru_g_m13 G_pointLeft 3 4 ''Teaching gesture left'',
     mk_config haru_g_m14 G_pointLeft 3 4 ''Explain left detail'',
     mk_config haru_g_m15 G_pointLeft 3 4 ''Reference left'',
     mk_config haru_g_m16 G_pointRight 3 4 ''Point right casual'',
     mk_config haru_g_m17 G_pointRight 3 4 ''Point right formal'',
     mk_config haru_g_m18 G_pointRight 3 4 ''Gesture right explain'',
     mk_config haru_g_m19 G_pointRight 3 4 ''Indicate right'',
     mk_config haru_g_m20 G_warning 4 6 ''Concerned expression'',
     mk_config haru_g_m21 G_warning 4 4 ''Caution gesture'',
     mk_config haru_g_m22 G_pointLeft 3 4 ''Additional left gesture'',
     mk_config haru_g_m23 G_pointRight 3 4 ''Additional right gesture'',
     mk_config haru_g_m24 G_emphasis 4 4 ''Additional emphasis'',
     mk_config haru_g_m25 G_greeting 5 3 ''Additional greeting'',
     mk_config haru_g_m26 G_idle 1 4 ''Relaxed idle'']"

text \<open>\<open>getMotionForGesture(gesture, index)\<close>: the guard \<open>!motions || motions.length === 0\<close>
  is the first branch, the round-robin pick \<open>motions[index % motions.length]\<close> the second.
  The index is the occurrence counter of the motion manager, a natural number.\<close>

definition getMotionForGesture :: "GestureType \<Rightarrow> nat \<Rightarrow> MotionName" where
  "getMotionForGesture g index =
     (case map_of MOTION_MAPPING g of
        None \<Rightarrow> haru_g_idle
      | Some motions \<Rightarrow>
          if length motions = 0 then haru_g_idle
          else motions ! (index mod length motions))"

text \<open>The guard alone: true exactly when \<open>getMotionForGesture\<close> takes its fallback branch.\<close>

definition motion_fallback :: "GestureType \<Rightarrow> bool" where
  "motion_fallback g =
     (case map_of MOTION_MAPPING g of None \<Rightarrow> True | Some motions \<Rightarrow> length motions = 0)"

definition getMotionConfig :: "MotionName \<Rightarrow> MotionConfig option" where
  "getMotionConfig motionName = find (\<lambda>config. name config = motionName) MOTION_CONFIGS"

text \<open>\<open>getMotionDuration\<close>: seconds of the catalog entry times 1000, or 3000 for a name the
  catalog does not hold. Durations are JavaScript numbers, read here as reals.\<close>

definition getMotionDuration :: "MotionName \<Rightarrow> real" where
  "getMotionDuration motionName =
     (case getMotionConfig motionName of
        Some config \<Rightarrow> duration config * 1000
      | None \<Rightarrow> 3000)"

section \<open>Gesture router: merging segments (services/GestureRouter.ts)\<close>

text \<open>The test of the loop, \<open>segment.gesture === current.gesture && segment.type ===
  current.type\<close>: the two segments agree on \<open>(type, gesture)\<close>.\<close>

definition same_intent :: "TeachingSegment \<Rightarrow> TeachingSegment \<Rightarrow> bool" where
  "same_intent current segment \<longleftrightarrow>
     gesture segment = gesture current \<and> seg_type segment = seg_type current"

text \<open>The \<open>for\<close> loop of \<open>optimizeSegments\<close>, with its two variables: \<open>optimized\<close> (the
  output so far) and \<open>current\<close> (the segment being grown). The third argument is what is
  left of \<open>segments\<close> from index \<open>i\<close> on.\<close>

fun optimize_loop ::
  "TeachingSegment list \<Rightarrow> TeachingSegment \<Rightarrow> TeachingSegment list \<Rightarrow> TeachingSegment list"
where
  "optimize_loop optimized current [] = optimized @ [current]"
| "optimize_loop optimized current (segment # rest) =
     (if same_intent current segment
      then optimize_loop optimized
             (current\<lparr>content := content current @ '' '' @ content segment\<rparr>) rest
      else optimize_loop (optimized @ [current]) segment rest)"

definition optimizeSegments :: "TeachingSegment list \<Rightarrow> TeachingSegment list" where
  "optimizeSegments segments =
     (case segments of
        [] \<Rightarrow> segments
      | s0 # rest \<Rightarrow> optimize_loop [] s0 rest)"

fun churn_free :: "TeachingSegment list \<Rightarrow> bool" where
  "churn_free [] = True"
| "churn_free [a] = True"
| "churn_free (a # b # rest) = (\<not> same_intent a b \<and> churn_free (b # rest))"

section \<open>Session manager (services/SessionManager)\<close>

record Exchange =
  userInput :: string
  aiResponse :: string
  timestamp :: nat

record SessionContext =
  sessionId :: string
  exchanges :: "Exchange list"
  startTime :: nat
  lastActivityTime :: nat

text \<open>The manager's one field, \<open>context\<close> (\<open>null\<close> is \<open>None\<close>), and the entry of
  \<open>localStorage\<close> under \<open>STORAGE_KEY\<close>, kept as the context that was serialised into it.
  A \<open>setItem\<close> that throws is caught and logged by the source and leaves the context as it
  is; the model keeps the successful write only.\<close>

record SessionManager =
  sm_context :: "SessionContext option"
  storage :: "SessionContext option"

definition MAX_EXCHANGES :: nat where
  "MAX_EXCHANGES = 10"

definition digit_char :: "nat \<Rightarrow> char" where
  "digit_char d = char_of (of_char CHR ''0'' + d)"

text \<open>Decimal digits of a length, for the template string of the summary.\<close>

function string_of_nat :: "nat \<Rightarrow> string" where
  "string_of_nat n =
     (if n < 10 then [digit_char n] else string_of_nat (n div 10) @ [digit_char (n mod 10)])"
  by pat_completeness auto
termination
  by (relation "measure id") auto

definition saveToStorage :: "SessionManager \<Rightarrow> SessionManager" where
  "saveToStorage m = (case sm_context m of Some c \<Rightarrow> m\<lparr>storage := Some c\<rparr> | None \<Rightarrow> m)"

definition removeFromStorage :: "SessionManager \<Rightarrow> SessionManager" where
  "removeFromStorage m = m\<lparr>storage := None\<rparr>"

text \<open>\<open>Date.now()\<close> and the generated session id are inputs: \<open>now\<close> stands for the clock
  reads of one call, \<open>sid\<close> for the result of \<open>generateSessionId\<close>.\<close>

definition initializeSession :: "nat \<Rightarrow> string \<Rightarrow> SessionManager \<Rightarrow> SessionManager" where
  "initializeSession now sid m =
     saveToStorage (m\<lparr>sm_context :=
       Some \<lparr>sessionId = sid, exchanges = [], startTime = now, lastActivityTime = now\<rparr>\<rparr>)"

text \<open>\<open>xs.slice(-k)\<close> and \<open>xs.slice(0, -k)\<close> for a positive \<open>k\<close>: the last \<open>k\<close> elements (all
  of them when there are fewer), and what is before them.\<close>

definition slice_last :: "nat \<Rightarrow> 'a list \<Rightarrow> 'a list" where
  "slice_last k xs = drop (length xs - k) xs"

definition slice_front :: "nat \<Rightarrow> 'a list \<Rightarrow> 'a list" where
  "slice_front k xs = take (length xs - k) xs"

definition summarizeContext :: "SessionManager \<Rightarrow> SessionManager" where
  "summarizeContext m =
     (case sm_context m of
        None \<Rightarrow> m
      | Some c \<Rightarrow>
          let recentExchanges = slice_last MAX_EXCHANGES (exchanges c);
              olderExchanges = slice_front MAX_EXCHANGES (exchanges c)
          in if length olderExchanges > 0
             then let summary = ''[Earlier conversation summary: '' @
                        string_of_nat (length olderExchanges) @
                        '' exchanges about various topics]''
                  in m\<lparr>sm_context := Some (c\<lparr>exchanges :=
                         \<lparr>userInput = ''[Context Summary]'', aiResponse = summary,
                          timestamp = startTime c\<rparr> # recentExchanges\<rparr>)\<rparr>
             else m)"

definition addExchange ::
  "string \<Rightarrow> string \<Rightarrow> nat \<Rightarrow> string \<Rightarrow> SessionManager \<Rightarrow> SessionManager"
where
  "addExchange u a now sid m =
     (let m1 = (if sm_context m = None then initializeSession now sid m else m)
      in case sm_context m1 of
           None \<Rightarrow> m1
         | Some c \<Rightarrow>
             let c1 = c\<lparr>exchanges :=
                        exchanges c @ [\<lparr>userInput = u, aiResponse = a, timestamp = now\<rparr>]\<rparr>;
                 c2 = c1\<lparr>lastActivityTime := now\<rparr>;
                 m2 = m1\<lparr>sm_context := Some c2\<rparr>;
                 m3 = (if length (exchanges c2) > MAX_EXCHANGES then summarizeContext m2 else m2)
             in saveToStorage m3)"

definition clearContext :: "nat \<Rightarrow> string \<Rightarrow> SessionManager \<Rightarrow> SessionManager" where
  "clearContext now sid m =
     initializeSession now sid (removeFromStorage (m\<lparr>sm_context := None\<rparr>))"

definition getExchangeCount :: "SessionManager \<Rightarrow> nat" where
  "getExchangeCount m = (case sm_context m of None \<Rightarrow> 0 | Some c \<Rightarrow> length (exchanges c))"

text \<open>A run of \<open>addExchange\<close> calls, one per element \<open>(userInput, aiResponse, clock)\<close>.\<close>

fun add_all ::
  "(string \<times> string \<times> nat) list \<Rightarrow> string \<Rightarrow> SessionManager \<Rightarrow> SessionManager"
where
  "add_all [] sid m = m"
| "add_all ((u, a, now) # rest) sid m = add_all rest sid (addExchange u a now sid m)"

text \<open>The exchange pushed by one call, and the synthetic exchange of a summary over \<open>k\<close>
  older exchanges in a session started at \<open>t\<close>.\<close>

definition mk_exchange :: "string \<times> string \<times> nat \<Rightarrow> Exchange" where
  "mk_exchange x =
     (case x of (u, a, now) \<Rightarrow> \<lparr>userInput = u, aiResponse = a, timestamp = now\<rparr>)"

definition summary_exchange :: "nat \<Rightarrow> nat \<Rightarrow> Exchange" where
  "summary_exchange k t =
     \<lparr>userInput = ''[Context Summary]'',
      aiResponse = ''[Earlier conversation summary: '' @ string_of_nat k @
                   '' exchanges about various topics]'',
      timestamp = t\<rparr>"

definition fifteen_inputs :: "(string \<times> string \<times> nat) list" where
  "fifteen_inputs = map (\<lambda>i. (''question '' @ string_of_nat i, ''answer'', 1000 * i)) [1..<16]"

section \<open>Gesture router: classifying sentences (services/GestureRouter.ts)\<close>

text \<open>A \<open>char\<close> stands for one UTF-16 code unit below 256. The string methods the router
  uses are written out on such strings: \<open>trim\<close> and the class \<open>\s\<close> share the white
  space and line terminator characters (tab, line feed, vertical tab, form feed, carriage
  return, space, no-break space), \<open>toLowerCase\<close> maps the capital letters of ASCII and of
  Latin-1 to their small letters.\<close>

definition is_space :: "char \<Rightarrow> bool" where
  "is_space c \<longleftrightarrow>
     (of_char c :: nat) \<in> set [0x09, 0x0A, 0x0B, 0x0C, 0x0D, 0x20, 0xA0]"

definition trim :: "string \<Rightarrow> string" where
  "trim s = rev (dropWhile is_space (rev (dropWhile is_space s)))"

definition lower_char :: "char \<Rightarrow> char" where
  "lower_char c =
     (let n = (of_char c :: nat)
      in if (0x41 \<le> n \<and> n \<le> 0x5A) \<or> (0xC0 \<le> n \<and> n \<le> 0xDE \<and> n \<noteq> 0xD7)
         then char_of (n + 32) else c)"

definition toLowerCase :: "string \<Rightarrow> string" where
  "toLowerCase s = map lower_char s"

fun startsWith :: "string \<Rightarrow> string \<Rightarrow> bool" where
  "startsWith s [] = True"
| "startsWith [] (k # ks) = False"
| "startsWith (c # cs) (k # ks) = (c = k \<and> startsWith cs ks)"

fun includes_str :: "string \<Rightarrow> string \<Rightarrow> bool" where
  "includes_str [] k = (k = [])"
| "includes_str (c # cs) k = (startsWith (c # cs) k \<or> includes_str cs k)"

definition substring0 :: "nat \<Rightarrow> string \<Rightarrow> string" where
  "substring0 n s = take n s"

subsection \<open>Sentences: \<open>text.match(/[^.!?]+[.!?]+/g) || [text]\<close>\<close>

definition is_terminator :: "char \<Rightarrow> bool" where
  "is_terminator c \<longleftrightarrow> c = CHR ''.'' \<or> c = CHR ''!'' \<or> c = CHR ''?''"

definition non_terminator :: "char \<Rightarrow> bool" where
  "non_terminator c \<longleftrightarrow> \<not> is_terminator c"

text \<open>The successive matches of the global pattern, left to right. A match cannot start on
  a terminator, so terminators at the search position are passed over; then \<open>[^.!?]+\<close>
  takes the whole run of other characters and \<open>[.!?]+\<close> the whole run of terminators after
  it. When the run of other characters reaches the end of the text, no terminator follows
  it from any start inside the run, and the search ends.\<close>

function match_sentences :: "string \<Rightarrow> string list" where
  "match_sentences s =
     (let s1 = dropWhile is_terminator s
      in if s1 = [] then []
         else let body = takeWhile non_terminator s1;
                  rest = dropWhile non_terminator s1
              in if rest = [] then []
                 else let punct = takeWhile is_terminator rest;
                          rest2 = dropWhile is_terminator rest
                      in (body @ punct) # match_sentences rest2)"
  by pat_completeness auto
termination
proof (relation "measure length")
  show "wf (measure length)" by simp
next
  fix s s1 body rest punct rest2 :: string
  assume a: "s1 = dropWhile is_terminator s" "rest = dropWhile non_terminator s1"
    "rest \<noteq> []" "rest2 = dropWhile is_terminator rest"
  have "length rest2 < length rest"
  proof (cases rest)
    case Nil
    with a(3) show ?thesis by simp
  next
    case (Cons c cs)
    then have "\<not> non_terminator c"
      using a(2) hd_dropWhile [of non_terminator s1] by (metis list.sel(1) list.distinct(1))
    then have "rest2 = dropWhile is_terminator cs"
      using a(4) Cons by (simp add: non_terminator_def)
    then show ?thesis
      using Cons length_dropWhile_le [of is_terminator cs] by simp
  qed
  moreover have "length rest \<le> length s1" using a(2) by (simp add: length_dropWhile_le)
  moreover have "length s1 \<le> length s" using a(1) by (simp add: length_dropWhile_le)
  ultimately show "(rest2, s) \<in> measure length" by simp
qed

declare match_sentences.simps [simp del]

definition split_sentences :: "string \<Rightarrow> string list" where
  "split_sentences text = (case match_sentences text of [] \<Rightarrow> [text] | m # ms \<Rightarrow> m # ms)"

subsection \<open>Keyword tests\<close>

definition emphasisKeywords :: "string list" where
  "emphasisKeywords =
     [''important'', ''crucial'', ''key point'', ''remember'', ''note that'',
      ''pay attention'', ''critical'', ''essential'', ''fundamental'']"

definition warningKeywords :: "string list" where
  "warningKeywords =
     [''warning'', ''caution'', ''careful'', ''avoid'', ''don'' @ [CHR 0x27] @ ''t'', ''mistake'',
      ''error'', ''wrong'', ''incorrect'', ''beware'']"

definition imageKeywords :: "string list" where
  "imageKeywords =
     [''look at'', ''see the'', ''observe'', ''notice'', ''image'', ''picture'', ''diagram'',
      ''chart'', ''graph'', ''illustration'', ''example here'', ''shown here'']"

definition isEmphasis :: "string \<Rightarrow> bool" where
  "isEmphasis text = list_ex (\<lambda>keyword. includes_str (toLowerCase text) keyword) emphasisKeywords"

definition isWarning :: "string \<Rightarrow> bool" where
  "isWarning text = list_ex (\<lambda>keyword. includes_str (toLowerCase text) keyword) warningKeywords"

definition hasImageReference :: "string \<Rightarrow> bool" where
  "hasImageReference text = list_ex (\<lambda>keyword. includes_str (toLowerCase text) keyword) imageKeywords"

subsection \<open>The image query:
  \<open>/(?:look at|see|observe|notice)\s+(?:the\s+)?([^.!?]+)/i\<close>\<close>

text \<open>The first alternative of a list that succeeds, as backtracking tries them.\<close>

fun first_some :: "('a \<Rightarrow> 'b option) \<Rightarrow> 'a list \<Rightarrow> 'b option" where
  "first_some f [] = None"
| "first_some f (x # xs) = (case f x of Some y \<Rightarrow> Some y | None \<Rightarrow> first_some f xs)"

text \<open>The lengths a greedy \<open>\s+\<close> tries on \<open>s\<close>: the whole run of white space first, then
  one character less at a time, down to one.\<close>

definition space_runs :: "string \<Rightarrow> nat list" where
  "space_runs s = rev [1 ..< Suc (length (takeWhile is_space s))]"

text \<open>\<open>([^.!?]+)\<close> ends the pattern: it takes the whole run of non-terminators and needs
  one character at least.\<close>

definition capture_group :: "string \<Rightarrow> string option" where
  "capture_group s = (let cap = takeWhile non_terminator s in if cap = [] then None else Some cap)"

text \<open>\<open>(?:the\s+)?([^.!?]+)\<close>: the optional group is tried first (the three letters in
  either case, then each length of \<open>\s+\<close>), the pattern without it second.\<close>

definition article_then_capture :: "string \<Rightarrow> string option" where
  "article_then_capture s =
     (case (if startsWith (toLowerCase s) ''the''
            then first_some (\<lambda>j. capture_group (drop j (drop 3 s))) (space_runs (drop 3 s))
            else None) of
        Some cap \<Rightarrow> Some cap
      | None \<Rightarrow> capture_group s)"

definition query_tail :: "string \<Rightarrow> string option" where
  "query_tail s = first_some (\<lambda>k. article_then_capture (drop k s)) (space_runs s)"

definition query_verbs :: "string list" where
  "query_verbs = [''look at'', ''see'', ''observe'', ''notice'']"

text \<open>A match that starts at the head of \<open>s\<close>: the alternatives of the first group in
  order, each followed by the rest of the pattern.\<close>

definition query_at :: "string \<Rightarrow> string option" where
  "query_at s =
     first_some
       (\<lambda>verb. if startsWith (toLowerCase s) verb then query_tail (drop (length verb) s)
               else None)
       query_verbs"

text \<open>\<open>text.match(...)\<close> without the global flag: the match at the leftmost position that
  has one; the result is its capture group.\<close>

fun query_search :: "string \<Rightarrow> string option" where
  "query_search [] = query_at []"
| "query_search (c # cs) =
     (case query_at (c # cs) of Some cap \<Rightarrow> Some cap | None \<Rightarrow> query_search cs)"

definition extractImageQuery :: "string \<Rightarrow> string" where
  "extractImageQuery text =
     (case query_search text of Some cap \<Rightarrow> trim cap | None \<Rightarrow> substring0 50 text)"

subsection \<open>\<open>parseTeachingContent\<close>\<close>

definition new_segment ::
  "SegmentType \<Rightarrow> string \<Rightarrow> GestureType \<Rightarrow> string option \<Rightarrow> TeachingSegment" where
  "new_segment t c g q =
     \<lparr>seg_type = t, content = c, gesture = Some g, imageQuery = q, seg_duration = None\<rparr>"

text \<open>The \<open>if\<close> chain of the loop body: the segment pushed for one trimmed sentence.\<close>

definition classify :: "string \<Rightarrow> TeachingSegment" where
  "classify trimmed =
     (if isEmphasis trimmed then new_segment T_emphasis trimmed G_emphasis None
      else if isWarning trimmed then new_segment T_text trimmed G_warning None
      else if hasImageReference trimmed
           then new_segment T_image trimmed G_pointRight (Some (extractImageQuery trimmed))
      else new_segment T_text trimmed G_pointLeft None)"

fun parse_loop :: "TeachingSegment list \<Rightarrow> string list \<Rightarrow> TeachingSegment list" where
  "parse_loop segments [] = segments"
| "parse_loop segments (sentence # rest) =
     (let trimmed = trim sentence
      in if trimmed = [] then parse_loop segments rest
         else parse_loop (segments @ [classify trimmed]) rest)"

definition parseTeachingContent :: "string \<Rightarrow> TeachingSegment list" where
  "parseTeachingContent text = parse_loop [] (split_sentences text)"

text \<open>The shape of one match of the sentence pattern: a non-empty run of non-terminators,
  then a non-empty run of terminators and nothing else.\<close>

definition sentence_shape :: "string \<Rightarrow> bool" where
  "sentence_shape s \<longleftrightarrow>
     takeWhile non_terminator s \<noteq> [] \<and> dropWhile non_terminator s \<noteq> [] \<and>
     list_all is_terminator (dropWhile non_terminator s)"

definition example_text :: string where
  "example_text = ''Remember: gravity pulls objects down. Look at the diagram on screen.''"

section \<open>Timers of the event loop\<close>

text \<open>\<open>setTimeout\<close> and \<open>clearTimeout\<close>. A pending timer is its handle, the time at which it
  is due (milliseconds on the component's clock) and a tag for its callback. Handles are
  positive integers, so the test \<open>if (handle)\<close> of the sources is a test against \<open>null\<close>.
  The event loop runs the due timer with the earliest time first, the older one among equal
  times.\<close>

type_synonym 'cb timer = "nat \<times> nat \<times> 'cb"

definition timer_handle :: "'cb timer \<Rightarrow> nat" where
  "timer_handle t = fst t"

definition timer_due :: "'cb timer \<Rightarrow> nat" where
  "timer_due t = fst (snd t)"

definition timer_callback :: "'cb timer \<Rightarrow> 'cb" where
  "timer_callback t = snd (snd t)"

definition clearTimeout :: "nat \<Rightarrow> 'cb timer list \<Rightarrow> 'cb timer list" where
  "clearTimeout h ts = filter (\<lambda>t. timer_handle t \<noteq> h) ts"

definition earlier :: "'cb timer \<Rightarrow> 'cb timer \<Rightarrow> 'cb timer" where
  "earlier t best = (if timer_due t < timer_due best then t else best)"

definition next_due :: "nat \<Rightarrow> 'cb timer list \<Rightarrow> 'cb timer option" where
  "next_due limit ts =
     (case filter (\<lambda>t. timer_due t \<le> limit) ts of
        [] \<Rightarrow> None
      | d # ds \<Rightarrow> Some (fold earlier ds d))"

section \<open>Realtime speech engine (services/RealtimeSpeechService, class WebSpeechEngine)\<close>

text \<open>What the engine does to the outside: the callbacks it invokes, and the calls it makes
  on the browser's recognition session.\<close>

datatype engine_output =
    Transcript string bool
  | EndOfUtterance string
  | ErrorForwarded string

datatype recognition_call = Recognition_start | Recognition_stop

text \<open>The four \<open>setTimeout\<close> callbacks of the class: the silence timer, the restart after a
  \<open>network\<close> or \<open>audio-capture\<close> error, the restart after \<open>onend\<close>, and the delayed
  \<open>recognition.start()\<close> inside \<open>restart()\<close>.\<close>

datatype speech_callback = SilenceTimeout | ErrorRestart | EndRestart | DelayedStart

record WebSpeechEngine =
  isActive :: bool
  transcriptCallback :: bool
  endCallback :: bool
  errorCallback :: bool
  accumulatedText :: string
  silenceTimer :: "nat option"
  se_clock :: nat
  se_next_handle :: nat
  se_timers :: "speech_callback timer list"
  outputs :: "engine_output list"
  recognition_calls :: "recognition_call list"

text \<open>The three callback fields hold whether a callback is registered; an invocation is
  recorded in \<open>outputs\<close>.\<close>

definition SILENCE_THRESHOLD :: nat where
  "SILENCE_THRESHOLD = 1000"

definition se_setTimeout :: "speech_callback \<Rightarrow> nat \<Rightarrow> WebSpeechEngine \<Rightarrow> nat \<times> WebSpeechEngine" where
  "se_setTimeout cb delay e =
     (se_next_handle e,
      e\<lparr>se_timers := se_timers e @ [(se_next_handle e, se_clock e + delay, cb)],
        se_next_handle := Suc (se_next_handle e)\<rparr>)"

definition clearSilenceTimer :: "WebSpeechEngine \<Rightarrow> WebSpeechEngine" where
  "clearSilenceTimer e =
     (case silenceTimer e of
        Some h \<Rightarrow> e\<lparr>se_timers := clearTimeout h (se_timers e), silenceTimer := None\<rparr>
      | None \<Rightarrow> e)"

definition startSilenceTimer :: "WebSpeechEngine \<Rightarrow> WebSpeechEngine" where
  "startSilenceTimer e =
     (let (h, e1) = se_setTimeout SilenceTimeout SILENCE_THRESHOLD (clearSilenceTimer e)
      in e1\<lparr>silenceTimer := Some h\<rparr>)"

text \<open>The body of the silence timer's callback.\<close>

definition on_silence :: "WebSpeechEngine \<Rightarrow> WebSpeechEngine" where
  "on_silence e =
     (if trim (accumulatedText e) \<noteq> []
      then let finalText = trim (accumulatedText e);
               e1 = e\<lparr>accumulatedText := []\<rparr>
           in if endCallback e1 then e1\<lparr>outputs := outputs e1 @ [EndOfUtterance finalText]\<rparr>
              else e1
      else e)"

text \<open>A recognition event: \<open>resultIndex\<close> and the list \<open>results\<close>, each result with the
  transcript of its first alternative and its \<open>isFinal\<close> flag.\<close>

record result_event =
  resultIndex :: nat
  results :: "(string \<times> bool) list"

text \<open>The \<open>for\<close> loop of \<open>onresult\<close> over the results from \<open>resultIndex\<close> on; the state is
  \<open>(interimTranscript, finalTranscript, accumulatedText)\<close>.\<close>

fun result_loop :: "(string \<times> bool) list \<Rightarrow> string \<times> string \<times> string \<Rightarrow> string \<times> string \<times> string"
where
  "result_loop [] acc = acc"
| "result_loop ((transcript, isFinal) # rest) (interimTranscript, finalTranscript, accumulated) =
     (if isFinal
      then result_loop rest
             (interimTranscript, finalTranscript @ transcript @ '' '',
              accumulated @ transcript @ '' '')
      else result_loop rest (interimTranscript @ transcript, finalTranscript, accumulated))"

definition onresult :: "result_event \<Rightarrow> WebSpeechEngine \<Rightarrow> WebSpeechEngine" where
  "onresult event e =
     (let e1 = clearSilenceTimer e;
          (interimTranscript, finalTranscript, accumulated) =
             result_loop (drop (resultIndex event) (results event)) ([], [], accumulatedText e1);
          e2 = e1\<lparr>accumulatedText := accumulated\<rparr>;
          e3 = (if interimTranscript \<noteq> [] \<and> transcriptCallback e2
                then e2\<lparr>outputs := outputs e2 @
                        [Transcript (accumulatedText e2 @ interimTranscript) False]\<rparr>
                else e2);
          e4 = (if finalTranscript \<noteq> [] \<and> transcriptCallback e3
                then e3\<lparr>outputs := outputs e3 @ [Transcript (trim (accumulatedText e3)) True]\<rparr>
                else e3)
      in startSilenceTimer e4)"

definition onspeechstart :: "WebSpeechEngine \<Rightarrow> WebSpeechEngine" where
  "onspeechstart e = clearSilenceTimer e"

definition onspeechend :: "WebSpeechEngine \<Rightarrow> WebSpeechEngine" where
  "onspeechend e = startSilenceTimer e"

text \<open>\<open>onerror\<close>: \<open>no-speech\<close> returns at once; any other code goes to the error callback
  when one is registered; \<open>network\<close> and \<open>audio-capture\<close> then schedule the restart.\<close>

definition onerror :: "string \<Rightarrow> WebSpeechEngine \<Rightarrow> WebSpeechEngine" where
  "onerror error e =
     (if error = ''no-speech'' then e
      else let e1 = (if errorCallback e then e\<lparr>outputs := outputs e @ [ErrorForwarded error]\<rparr>
                     else e)
           in if error = ''network'' \<or> error = ''audio-capture''
              then snd (se_setTimeout ErrorRestart 1000 e1)
              else e1)"

definition onend :: "WebSpeechEngine \<Rightarrow> WebSpeechEngine" where
  "onend e = (if isActive e then snd (se_setTimeout EndRestart 100 e) else e)"

text \<open>\<open>restart()\<close>: stop the session, start it again 100 ms later. (A \<open>stop()\<close> that
  throws is caught and logged, and then no timer is set; the model keeps the call that
  returns.)\<close>

definition restart :: "WebSpeechEngine \<Rightarrow> WebSpeechEngine" where
  "restart e =
     snd (se_setTimeout DelayedStart 100
            (e\<lparr>recognition_calls := recognition_calls e @ [Recognition_stop]\<rparr>))"

text \<open>The body of each timer callback.\<close>

fun se_callback :: "speech_callback \<Rightarrow> WebSpeechEngine \<Rightarrow> WebSpeechEngine" where
  "se_callback SilenceTimeout e = on_silence e"
| "se_callback ErrorRestart e = (if isActive e then restart e else e)"
| "se_callback EndRestart e =
     (if isActive e then e\<lparr>recognition_calls := recognition_calls e @ [Recognition_start]\<rparr>
      else e)"
| "se_callback DelayedStart e = e\<lparr>recognition_calls := recognition_calls e @ [Recognition_start]\<rparr>"

text \<open>\<open>start()\<close> and \<open>stop()\<close> of the engine. When \<open>recognition.start()\<close> throws, \<open>start()\<close>
  takes its \<open>catch\<close>: the engine is inactive again and the promise is rejected.\<close>

definition se_start :: "WebSpeechEngine \<Rightarrow> WebSpeechEngine" where
  "se_start e =
     e\<lparr>isActive := True, accumulatedText := [],
       recognition_calls := recognition_calls e @ [Recognition_start]\<rparr>"

definition se_start_rejected :: "WebSpeechEngine \<Rightarrow> WebSpeechEngine" where
  "se_start_rejected e =
     e\<lparr>isActive := False, accumulatedText := [],
       recognition_calls := recognition_calls e @ [Recognition_start]\<rparr>"

definition se_stop :: "WebSpeechEngine \<Rightarrow> WebSpeechEngine" where
  "se_stop e =
     (let e1 = clearSilenceTimer (e\<lparr>isActive := False\<rparr>)
      in e1\<lparr>recognition_calls := recognition_calls e1 @ [Recognition_stop]\<rparr>)"

text \<open>Time passing up to \<open>target\<close>: the due timers run one after the other, each at its own
  time. A callback schedules at most the delayed start of \<open>restart()\<close>, which schedules
  nothing, so the pending work shrinks with every callback.\<close>

fun callback_weight :: "speech_callback \<Rightarrow> nat" where
  "callback_weight ErrorRestart = 2"
| "callback_weight cb = 1"

definition pending_weight :: "WebSpeechEngine \<Rightarrow> nat" where
  "pending_weight e = sum_list (map (\<lambda>t. callback_weight (timer_callback t)) (se_timers e))"

definition se_fire :: "speech_callback timer \<Rightarrow> WebSpeechEngine \<Rightarrow> WebSpeechEngine" where
  "se_fire t e =
     se_callback (timer_callback t)
       (e\<lparr>se_timers := clearTimeout (timer_handle t) (se_timers e),
          se_clock := max (se_clock e) (timer_due t)\<rparr>)"

lemma fold_earlier_mem: "fold earlier ds d \<in> set (d # ds)"
  by (induction ds arbitrary: d) (auto simp: earlier_def)

lemma next_due_mem: "next_due limit ts = Some t \<Longrightarrow> t \<in> set ts \<and> timer_due t \<le> limit"
proof -
  assume a: "next_due limit ts = Some t"
  then obtain d ds where f: "filter (\<lambda>t. timer_due t \<le> limit) ts = d # ds"
    and t: "t = fold earlier ds d"
    by (auto simp: next_due_def split: list.splits)
  have "t \<in> set (d # ds)" using t fold_earlier_mem by blast
  then have "t \<in> set (filter (\<lambda>t. timer_due t \<le> limit) ts)" using f by simp
  then show ?thesis by simp
qed

lemma weight_filter_le:
  fixes w :: "'a \<Rightarrow> nat"
  shows "sum_list (map w (filter P ts)) \<le> sum_list (map w ts)"
  by (induction ts) auto

lemma weight_after_clear:
  fixes w :: "'cb timer \<Rightarrow> nat"
  assumes "t \<in> set ts"
  shows "sum_list (map w (clearTimeout (timer_handle t) ts)) + w t \<le> sum_list (map w ts)"
  using assms
proof (induction ts)
  case Nil
  then show ?case by simp
next
  case (Cons x xs)
  show ?case
  proof (cases "x = t")
    case True
    have "sum_list (map w (filter (\<lambda>u. timer_handle u \<noteq> timer_handle t) xs))
        \<le> sum_list (map w xs)"
      by (rule weight_filter_le)
    then show ?thesis using True by (simp add: clearTimeout_def)
  next
    case False
    then have "t \<in> set xs" using Cons.prems by simp
    from Cons.IH [OF this] show ?thesis by (simp add: clearTimeout_def)
  qed
qed

lemma se_fire_weight:
  assumes "t \<in> set (se_timers e)"
  shows "pending_weight (se_fire t e) < pending_weight e"
proof -
  define e1 where "e1 = e\<lparr>se_timers := clearTimeout (timer_handle t) (se_timers e),
          se_clock := max (se_clock e) (timer_due t)\<rparr>"
  have w: "pending_weight e1 + callback_weight (timer_callback t) \<le> pending_weight e"
    using weight_after_clear [OF assms, of "\<lambda>t. callback_weight (timer_callback t)"]
    by (simp add: pending_weight_def e1_def)
  have "pending_weight (se_callback (timer_callback t) e1) < pending_weight e"
  proof (cases "timer_callback t")
    case SilenceTimeout
    then show ?thesis using w by (simp add: on_silence_def pending_weight_def Let_def)
  next
    case ErrorRestart
    then show ?thesis
      using w by (simp add: restart_def se_setTimeout_def pending_weight_def timer_callback_def)
  next
    case EndRestart
    then show ?thesis using w by (simp add: pending_weight_def)
  next
    case DelayedStart
    then show ?thesis using w by (simp add: pending_weight_def)
  qed
  then show ?thesis by (simp add: se_fire_def e1_def)
qed

function se_advance :: "nat \<Rightarrow> WebSpeechEngine \<Rightarrow> WebSpeechEngine" where
  "se_advance target e =
     (case next_due target (se_timers e) of
        None \<Rightarrow> e\<lparr>se_clock := max (se_clock e) target\<rparr>
      | Some t \<Rightarrow> se_advance target (se_fire t e))"
  by pat_completeness auto
termination
proof (relation "measure (\<lambda>(target, e). pending_weight e)")
  show "wf (measure (\<lambda>(target, e). pending_weight e))" by simp
next
  fix target :: nat and e :: WebSpeechEngine and t :: "speech_callback timer"
  assume "next_due target (se_timers e) = Some t"
  then have "t \<in> set (se_timers e)" using next_due_mem by blast
  then show "((target, se_fire t e), (target, e)) \<in> measure (\<lambda>(target, e). pending_weight e)"
    using se_fire_weight by simp
qed

declare se_advance.simps [simp del]

text \<open>\<open>d\<close> milliseconds pass.\<close>

definition se_elapse :: "nat \<Rightarrow> WebSpeechEngine \<Rightarrow> WebSpeechEngine" where
  "se_elapse d e = se_advance (se_clock e + d) e"

text \<open>A stream of recognition events, each after its gap in milliseconds.\<close>

fun feed :: "(nat \<times> result_event) list \<Rightarrow> WebSpeechEngine \<Rightarrow> WebSpeechEngine" where
  "feed [] e = e"
| "feed ((gap, event) # rest) e = feed rest (onresult event (se_elapse gap e))"

definition utterances :: "WebSpeechEngine \<Rightarrow> string list" where
  "utterances e = concat (map (\<lambda>out. case out of EndOfUtterance t \<Rightarrow> [t] | _ \<Rightarrow> []) (outputs e))"

definition forwarded_errors :: "WebSpeechEngine \<Rightarrow> string list" where
  "forwarded_errors e =
     concat (map (\<lambda>out. case out of ErrorForwarded c \<Rightarrow> [c] | _ \<Rightarrow> []) (outputs e))"

text \<open>A recognition event with one final result.\<close>

definition final_result :: "string \<Rightarrow> result_event" where
  "final_result transcript = \<lparr>resultIndex = 0, results = [(transcript, True)]\<rparr>"

text \<open>The engine as constructed, with the three callbacks the service registers in its own
  constructor.\<close>

definition new_engine :: WebSpeechEngine where
  "new_engine =
     \<lparr>isActive = False, transcriptCallback = True, endCallback = True, errorCallback = True,
      accumulatedText = [], silenceTimer = None, se_clock = 0, se_next_handle = 1,
      se_timers = [], outputs = [], recognition_calls = []\<rparr>"

text \<open>What the final results of one event append to the buffer.\<close>

definition final_texts :: "result_event \<Rightarrow> string" where
  "final_texts event =
     concat (map (\<lambda>r. if snd r then fst r @ '' '' else [])
               (drop (resultIndex event) (results event)))"

text \<open>A stream for the examples: two final results 400 ms apart.\<close>

definition two_results :: "(nat \<times> result_event) list" where
  "two_results = [(0, final_result ''hello''), (400, final_result ''world'')]"

section \<open>Gaze controller (services/EyeController)\<close>

datatype gaze_direction = D_left | D_right | D_center

text \<open>What the controller can find behind \<open>this.model\<close>: a core model without a usable
  \<open>setParameterValueById\<close> (the inner \<open>if\<close> fails), one whose access or call throws (the
  \<open>catch\<close> logs it), or one that takes the parameter.\<close>

datatype core_model = CoreMissing | CoreThrows | CoreReady

datatype eye_callback = ReturnToCenter

text \<open>The fields of the class, then the surroundings: the clock and pending timers of the
  event loop, the values passed to \<open>setParameterValueById('ParamAngleX', _)\<close> in call order,
  and how many timer callbacks have run.\<close>

record EyeController =
  eye_model :: "core_model option"
  currentDirection :: gaze_direction
  returnToCenterTimeout :: "nat option"
  eye_clock :: nat
  eye_next_handle :: nat
  eye_timers :: "eye_callback timer list"
  angle_calls :: "int list"
  callbacks_run :: nat

definition new_eye :: EyeController where
  "new_eye =
     \<lparr>eye_model = None, currentDirection = D_center, returnToCenterTimeout = None,
      eye_clock = 0, eye_next_handle = 1, eye_timers = [], angle_calls = [],
      callbacks_run = 0\<rparr>"

definition eye_setModel :: "core_model \<Rightarrow> EyeController \<Rightarrow> EyeController" where
  "eye_setModel m c = c\<lparr>eye_model := Some m\<rparr>"

definition scheduleReturnToCenter :: "nat \<Rightarrow> EyeController \<Rightarrow> EyeController" where
  "scheduleReturnToCenter durationMs c =
     (let c1 = (case returnToCenterTimeout c of
                  Some h \<Rightarrow> c\<lparr>eye_timers := clearTimeout h (eye_timers c)\<rparr>
                | None \<Rightarrow> c)
      in c1\<lparr>eye_timers := eye_timers c1 @
                [(eye_next_handle c1, eye_clock c1 + durationMs, ReturnToCenter)],
             returnToCenterTimeout := Some (eye_next_handle c1),
             eye_next_handle := Suc (eye_next_handle c1)\<rparr>)"

definition lookLeft :: "nat \<Rightarrow> EyeController \<Rightarrow> EyeController" where
  "lookLeft durationMs c =
     (case eye_model c of
        None \<Rightarrow> c
      | Some CoreThrows \<Rightarrow> c
      | Some CoreMissing \<Rightarrow> c
      | Some CoreReady \<Rightarrow>
          scheduleReturnToCenter durationMs
            (c\<lparr>angle_calls := angle_calls c @ [- 15], currentDirection := D_left\<rparr>))"

definition lookRight :: "nat \<Rightarrow> EyeController \<Rightarrow> EyeController" where
  "lookRight durationMs c =
     (case eye_model c of
        None \<Rightarrow> c
      | Some CoreThrows \<Rightarrow> c
      | Some CoreMissing \<Rightarrow> c
      | Some CoreReady \<Rightarrow>
          scheduleReturnToCenter durationMs
            (c\<lparr>angle_calls := angle_calls c @ [15], currentDirection := D_right\<rparr>))"

definition lookCenter :: "EyeController \<Rightarrow> EyeController" where
  "lookCenter c =
     (case eye_model c of
        None \<Rightarrow> c
      | Some CoreThrows \<Rightarrow> c
      | Some CoreMissing \<Rightarrow> c
      | Some CoreReady \<Rightarrow>
          (let c1 = c\<lparr>angle_calls := angle_calls c @ [0], currentDirection := D_center\<rparr>
           in case returnToCenterTimeout c1 of
                Some h \<Rightarrow> c1\<lparr>eye_timers := clearTimeout h (eye_timers c1),
                              returnToCenterTimeout := None\<rparr>
              | None \<Rightarrow> c1))"

definition eye_destroy :: "EyeController \<Rightarrow> EyeController" where
  "eye_destroy c =
     (let c1 = (case returnToCenterTimeout c of
                  Some h \<Rightarrow> c\<lparr>eye_timers := clearTimeout h (eye_timers c),
                               returnToCenterTimeout := None\<rparr>
                | None \<Rightarrow> c)
      in c1\<lparr>eye_model := None\<rparr>)"

text \<open>The event loop running one due timer: it leaves the pending list and its callback,
  \<open>() => this.lookCenter()\<close>, runs.\<close>

definition eye_fire :: "eye_callback timer \<Rightarrow> EyeController \<Rightarrow> EyeController" where
  "eye_fire t c =
     lookCenter
       (c\<lparr>eye_timers := clearTimeout (timer_handle t) (eye_timers c),
          eye_clock := max (eye_clock c) (timer_due t),
          callbacks_run := Suc (callbacks_run c)\<rparr>)"

lemma clearTimeout_length: "length (clearTimeout h ts) \<le> length ts"
  by (simp add: clearTimeout_def)

lemma clearTimeout_member_length:
  "t \<in> set ts \<Longrightarrow> length (clearTimeout (timer_handle t) ts) < length ts"
  by (induction ts) (auto simp: clearTimeout_def less_Suc_eq_le)

lemma lookCenter_timers_length: "length (eye_timers (lookCenter c)) \<le> length (eye_timers c)"
  by (simp add: lookCenter_def Let_def clearTimeout_length
      split: option.splits core_model.splits)

lemma eye_fire_length:
  assumes "t \<in> set (eye_timers c)"
  shows "length (eye_timers (eye_fire t c)) < length (eye_timers c)"
proof -
  define c1 where "c1 = c\<lparr>eye_timers := clearTimeout (timer_handle t) (eye_timers c),
          eye_clock := max (eye_clock c) (timer_due t),
          callbacks_run := Suc (callbacks_run c)\<rparr>"
  have "length (eye_timers c1) < length (eye_timers c)"
    using clearTimeout_member_length [OF assms] by (simp add: c1_def)
  moreover have "length (eye_timers (lookCenter c1)) \<le> length (eye_timers c1)"
    by (rule lookCenter_timers_length)
  ultimately show ?thesis by (simp add: eye_fire_def c1_def)
qed

function eye_advance :: "nat \<Rightarrow> EyeController \<Rightarrow> EyeController" where
  "eye_advance target c =
     (case next_due target (eye_timers c) of
        None \<Rightarrow> c\<lparr>eye_clock := max (eye_clock c) target\<rparr>
      | Some t \<Rightarrow> eye_advance target (eye_fire t c))"
  by pat_completeness auto
termination
proof (relation "measure (\<lambda>(target, c). length (eye_timers c))")
  show "wf (measure (\<lambda>(target, c). length (eye_timers c)))" by simp
next
  fix target :: nat and c :: EyeController and t :: "eye_callback timer"
  assume "next_due target (eye_timers c) = Some t"
  then have "t \<in> set (eye_timers c)" using next_due_mem by blast
  then show "((target, eye_fire t c), (target, c)) \<in> measure (\<lambda>(target, c). length (eye_timers c))"
    using eye_fire_length by simp
qed

declare eye_advance.simps [simp del]

definition eye_elapse :: "nat \<Rightarrow> EyeController \<Rightarrow> EyeController" where
  "eye_elapse d c = eye_advance (eye_clock c + d) c"

text \<open>Whatever can happen to the controller: its public methods and the passing of time.\<close>

datatype eye_op =
  SetModel core_model | LookLeft nat | LookRight nat | LookCenter | Destroy | Elapse nat

fun eye_apply :: "EyeController \<Rightarrow> eye_op \<Rightarrow> EyeController" where
  "eye_apply c (SetModel m) = eye_setModel m c"
| "eye_apply c (LookLeft d) = lookLeft d c"
| "eye_apply c (LookRight d) = lookRight d c"
| "eye_apply c LookCenter = lookCenter c"
| "eye_apply c Destroy = eye_destroy c"
| "eye_apply c (Elapse d) = eye_elapse d c"

definition eye_run :: "eye_op list \<Rightarrow> EyeController" where
  "eye_run ops = foldl eye_apply new_eye ops"

text \<open>At most one timer is pending, and it is the one whose handle the field holds.\<close>

definition one_timer :: "EyeController \<Rightarrow> bool" where
  "one_timer c \<longleftrightarrow>
     (case eye_timers c of
        [] \<Rightarrow> True
      | t # ts \<Rightarrow> ts = [] \<and> returnToCenterTimeout c = Some (timer_handle t))"

section \<open>Motion state machine (services/MotionManager.ts)\<close>

text \<open>\<open>requestGesture\<close>, \<open>returnToIdle\<close> and \<open>playMotion\<close> are \<open>async\<close>: each runs up to its
  \<open>await\<close>, and the rest runs when the awaited promise settles. A call of \<open>playMotion\<close> that
  has not settled yet is a \<open>pending_play\<close>: the motion, the loop flag, whether the renderer
  was called (\<open>model.motion(...)\<close>; not so when no model is attached, and then the promise
  is already resolved), and whether \<open>requestGesture\<close> is the function waiting for it.\<close>

record pending_play =
  pp_motion :: MotionName
  pp_loop :: bool
  pp_called :: bool
  pp_transition :: bool

datatype outcome = Resolved | Rejected

text \<open>What the renderer sees: the calls \<open>model.motion(name, undefined, loop ? 3 : 0)\<close> and
  the moments their promises settle.\<close>

datatype render_event = MotionCall MotionName bool | MotionSettled MotionName outcome

datatype idle_callback = IdleReturn

record MotionManager =
  mm_model :: bool
  currentMotion :: MotionName
  currentState :: HaruState
  isTransitioning :: bool
  motionQueue :: "GestureType list"
  returnToIdleTimeout :: "nat option"
  gestureCounter :: "GestureType \<rightharpoonup> nat"
  mm_clock :: nat
  mm_next_handle :: nat
  mm_timers :: "idle_callback timer list"
  in_flight :: "pending_play list"
  render_log :: "render_event list"

definition new_manager :: MotionManager where
  "new_manager =
     \<lparr>mm_model = False, currentMotion = haru_g_idle, currentState = H_idle,
      isTransitioning = False, motionQueue = [], returnToIdleTimeout = None,
      gestureCounter = Map.empty, mm_clock = 0, mm_next_handle = 1, mm_timers = [],
      in_flight = [], render_log = []\<rparr>"

text \<open>\<open>playMotion\<close> up to its \<open>await\<close>.\<close>

definition playMotion_begin :: "MotionName \<Rightarrow> bool \<Rightarrow> bool \<Rightarrow> MotionManager \<Rightarrow> MotionManager" where
  "playMotion_begin motionName loop transition m =
     (if \<not> mm_model m
      then m\<lparr>in_flight := in_flight m @
               [\<lparr>pp_motion = motionName, pp_loop = loop, pp_called = False,
                 pp_transition = transition\<rparr>]\<rparr>
      else m\<lparr>render_log := render_log m @ [MotionCall motionName loop],
             in_flight := in_flight m @
               [\<lparr>pp_motion = motionName, pp_loop = loop, pp_called = True,
                 pp_transition = transition\<rparr>]\<rparr>)"

definition scheduleReturnToIdle :: "nat \<Rightarrow> MotionManager \<Rightarrow> MotionManager" where
  "scheduleReturnToIdle delay m =
     (let m1 = (case returnToIdleTimeout m of
                  Some h \<Rightarrow> m\<lparr>mm_timers := clearTimeout h (mm_timers m)\<rparr>
                | None \<Rightarrow> m)
      in m1\<lparr>mm_timers := mm_timers m1 @ [(mm_next_handle m1, mm_clock m1 + delay, IdleReturn)],
             returnToIdleTimeout := Some (mm_next_handle m1),
             mm_next_handle := Suc (mm_next_handle m1)\<rparr>)"

text \<open>\<open>playMotion\<close> after its \<open>await\<close>: on a resolved promise the current motion is set and a
  motion that neither loops nor is the idle motion gets its return timer, with the delay
  \<open>setTimeout\<close> makes of the duration (its integer part); a rejected promise goes to the
  \<open>catch\<close>, which logs.\<close>

definition playMotion_finish :: "pending_play \<Rightarrow> outcome \<Rightarrow> MotionManager \<Rightarrow> MotionManager" where
  "playMotion_finish p result m =
     (if \<not> pp_called p then m
      else let m1 = m\<lparr>render_log := render_log m @ [MotionSettled (pp_motion p) result]\<rparr>
           in case result of
                Rejected \<Rightarrow> m1
              | Resolved \<Rightarrow>
                  (let m2 = m1\<lparr>currentMotion := pp_motion p\<rparr>
                   in if \<not> pp_loop p \<and> pp_motion p \<noteq> haru_g_idle
                      then scheduleReturnToIdle (nat \<lfloor>getMotionDuration (pp_motion p)\<rfloor>) m2
                      else m2))"

text \<open>\<open>requestGesture\<close> up to its \<open>await\<close>.\<close>

definition requestGesture :: "GestureType \<Rightarrow> MotionManager \<Rightarrow> MotionManager" where
  "requestGesture g m =
     (if isTransitioning m then m\<lparr>motionQueue := motionQueue m @ [g]\<rparr>
      else let m1 = m\<lparr>isTransitioning := True\<rparr>;
               m2 = (case returnToIdleTimeout m1 of
                       Some h \<Rightarrow> m1\<lparr>mm_timers := clearTimeout h (mm_timers m1),
                                    returnToIdleTimeout := None\<rparr>
                     | None \<Rightarrow> m1);
               counter = (case gestureCounter m2 g of Some c \<Rightarrow> c | None \<Rightarrow> 0);
               motion = getMotionForGesture g counter;
               m3 = m2\<lparr>gestureCounter := (gestureCounter m2)(g \<mapsto> counter + 1)\<rparr>;
               m4 = m3\<lparr>currentState :=
                         (if g = G_idle then H_idle
                          else if g = G_listening then H_listening else H_gesturing)\<rparr>
           in playMotion_begin motion (g = G_idle \<or> g = G_listening) True m4)"

text \<open>\<open>processQueue\<close>, whose recursive \<open>requestGesture\<close> runs up to its own \<open>await\<close>.\<close>

definition processQueue :: "MotionManager \<Rightarrow> MotionManager" where
  "processQueue m =
     (if motionQueue m = [] \<or> isTransitioning m then m
      else requestGesture (hd (motionQueue m)) (m\<lparr>motionQueue := tl (motionQueue m)\<rparr>))"

text \<open>\<open>requestGesture\<close> after its \<open>await\<close>.\<close>

definition requestGesture_resume :: "MotionManager \<Rightarrow> MotionManager" where
  "requestGesture_resume m = processQueue (m\<lparr>isTransitioning := False\<rparr>)"

text \<open>The promise of the \<open>i\<close>-th pending \<open>playMotion\<close> settles: the rest of \<open>playMotion\<close>
  runs, then the rest of the function that awaited it.\<close>

definition settle :: "nat \<Rightarrow> outcome \<Rightarrow> MotionManager \<Rightarrow> MotionManager" where
  "settle i result m =
     (if i < length (in_flight m)
      then let p = in_flight m ! i;
               m1 = m\<lparr>in_flight := take i (in_flight m) @ drop (Suc i) (in_flight m)\<rparr>;
               m2 = playMotion_finish p result m1
           in if pp_transition p then requestGesture_resume m2 else m2
      else m)"

definition returnToIdle :: "MotionManager \<Rightarrow> MotionManager" where
  "returnToIdle m =
     (if isTransitioning m then m
      else playMotion_begin haru_g_idle True False (m\<lparr>currentState := H_idle\<rparr>))"

definition mm_setModel :: "MotionManager \<Rightarrow> MotionManager" where
  "mm_setModel m = playMotion_begin haru_g_idle True False (m\<lparr>mm_model := True\<rparr>)"

definition setListening :: "bool \<Rightarrow> MotionManager \<Rightarrow> MotionManager" where
  "setListening listening m =
     (if listening then requestGesture G_listening m
      else if currentState m = H_listening then returnToIdle m else m)"

definition setSpeaking :: "bool \<Rightarrow> MotionManager \<Rightarrow> MotionManager" where
  "setSpeaking speaking m =
     (let m1 = m\<lparr>currentState := (if speaking then H_speaking else H_idle)\<rparr>
      in if \<not> speaking \<and> currentMotion m1 \<noteq> haru_g_idle then returnToIdle m1 else m1)"

definition mm_stop :: "MotionManager \<Rightarrow> MotionManager" where
  "mm_stop m =
     (let m1 = m\<lparr>motionQueue := []\<rparr>;
          m2 = (case returnToIdleTimeout m1 of
                  Some h \<Rightarrow> m1\<lparr>mm_timers := clearTimeout h (mm_timers m1),
                               returnToIdleTimeout := None\<rparr>
                | None \<Rightarrow> m1)
      in returnToIdle (m2\<lparr>isTransitioning := False\<rparr>))"

text \<open>\<open>destroy()\<close>: \<open>this.stop()\<close>, whose \<open>returnToIdle()\<close> still finds the model, then
  \<open>this.model = null\<close>.\<close>

definition mm_destroy :: "MotionManager \<Rightarrow> MotionManager" where
  "mm_destroy m = (mm_stop m)\<lparr>mm_model := False\<rparr>"

text \<open>The return timer's callback, and the event loop running a due timer.\<close>

definition idle_timeout :: "MotionManager \<Rightarrow> MotionManager" where
  "idle_timeout m = (if currentMotion m \<noteq> haru_g_idle then returnToIdle m else m)"

definition mm_fire :: "idle_callback timer \<Rightarrow> MotionManager \<Rightarrow> MotionManager" where
  "mm_fire t m =
     idle_timeout
       (m\<lparr>mm_timers := clearTimeout (timer_handle t) (mm_timers m),
          mm_clock := max (mm_clock m) (timer_due t)\<rparr>)"

lemma idle_timeout_timers: "mm_timers (idle_timeout m) = mm_timers m"
  by (simp add: idle_timeout_def returnToIdle_def playMotion_begin_def)

function mm_advance :: "nat \<Rightarrow> MotionManager \<Rightarrow> MotionManager" where
  "mm_advance target m =
     (case next_due target (mm_timers m) of
        None \<Rightarrow> m\<lparr>mm_clock := max (mm_clock m) target\<rparr>
      | Some t \<Rightarrow> mm_advance target (mm_fire t m))"
  by pat_completeness auto
termination
proof (relation "measure (\<lambda>(target, m). length (mm_timers m))")
  show "wf (measure (\<lambda>(target, m). length (mm_timers m)))" by simp
next
  fix target :: nat and m :: MotionManager and t :: "idle_callback timer"
  assume "next_due target (mm_timers m) = Some t"
  then have "t \<in> set (mm_timers m)" using next_due_mem by blast
  then have "length (clearTimeout (timer_handle t) (mm_timers m)) < length (mm_timers m)"
    by (rule clearTimeout_member_length)
  then show "((target, mm_fire t m), (target, m)) \<in> measure (\<lambda>(target, m). length (mm_timers m))"
    by (simp add: mm_fire_def idle_timeout_timers)
qed

declare mm_advance.simps [simp del]

definition mm_elapse :: "nat \<Rightarrow> MotionManager \<Rightarrow> MotionManager" where
  "mm_elapse d m = mm_advance (mm_clock m + d) m"

text \<open>What can happen to the manager: its public methods, a pending promise settling, and
  time passing.\<close>

datatype mm_op =
    RequestGesture GestureType
  | Settle nat outcome
  | ReturnToIdle
  | SetListening bool
  | SetSpeaking bool
  | AttachModel
  | Wait nat
  | Stop
  | DestroyManager

fun mm_apply :: "MotionManager \<Rightarrow> mm_op \<Rightarrow> MotionManager" where
  "mm_apply m (RequestGesture g) = requestGesture g m"
| "mm_apply m (Settle i result) = settle i result m"
| "mm_apply m ReturnToIdle = returnToIdle m"
| "mm_apply m (SetListening b) = setListening b m"
| "mm_apply m (SetSpeaking b) = setSpeaking b m"
| "mm_apply m AttachModel = mm_setModel m"
| "mm_apply m (Wait d) = mm_elapse d m"
| "mm_apply m Stop = mm_stop m"
| "mm_apply m DestroyManager = mm_destroy m"

definition mm_run :: "mm_op list \<Rightarrow> MotionManager" where
  "mm_run ops = foldl mm_apply new_manager ops"

text \<open>The transitions in flight: the pending plays that a \<open>requestGesture\<close> is waiting for.
  The plays started by \<open>returnToIdle\<close> and \<open>setModel\<close> are not among them: those functions
  neither test nor set \<open>isTransitioning\<close>.\<close>

definition transitions :: "MotionManager \<Rightarrow> pending_play list" where
  "transitions m = filter pp_transition (in_flight m)"

text \<open>\<open>stop()\<close> and \<open>destroy()\<close> are the hard resets. A run of operations keeps them at rest
  when each of them comes at a moment with no transition in flight.\<close>

fun is_reset :: "mm_op \<Rightarrow> bool" where
  "is_reset Stop = True"
| "is_reset DestroyManager = True"
| "is_reset other = False"

fun resets_at_rest :: "MotionManager \<Rightarrow> mm_op list \<Rightarrow> bool" where
  "resets_at_rest m [] = True"
| "resets_at_rest m (op # ops) =
     ((if is_reset op then transitions m = [] else True) \<and>
      resets_at_rest (mm_apply m op) ops)"

text \<open>A run with a hard reset in the middle of a transition: the model is attached, a
  greeting is requested, \<open>stop()\<close> is called before its promise settles, and an emphasis
  is requested.\<close>

definition stop_mid_transition :: "mm_op list" where
  "stop_mid_transition =
     [AttachModel, Settle 0 Resolved, RequestGesture G_greeting, Stop,
      RequestGesture G_emphasis]"

text \<open>A run with a hard reset at rest.\<close>

definition stop_at_rest :: "mm_op list" where
  "stop_at_rest = [AttachModel, Settle 0 Resolved, Stop, RequestGesture G_greeting]"

text \<open>The occurrence counter of a gesture, as \<open>requestGesture\<close> reads it
  (\<open>gestureCounter.get(gesture) || 0\<close>).\<close>

definition occurrence :: "MotionManager \<Rightarrow> GestureType \<Rightarrow> nat" where
  "occurrence m g = (case gestureCounter m g of Some c \<Rightarrow> c | None \<Rightarrow> 0)"

definition loops :: "GestureType \<Rightarrow> bool" where
  "loops g \<longleftrightarrow> g = G_idle \<or> g = G_listening"

definition single_flight :: "MotionManager \<Rightarrow> bool" where
  "single_flight m \<longleftrightarrow>
     length (transitions m) \<le> 1 \<and> (isTransitioning m \<longleftrightarrow> transitions m \<noteq> [])"

text \<open>The pending play a \<open>requestGesture(g)\<close> starts in state \<open>m\<close>.\<close>

definition transition_of :: "MotionManager \<Rightarrow> GestureType \<Rightarrow> pending_play" where
  "transition_of m g =
     \<lparr>pp_motion = getMotionForGesture g (occurrence m g), pp_loop = loops g,
      pp_called = mm_model m, pp_transition = True\<rparr>"

text \<open>The clip a request for \<open>g\<close> gets when the requests \<open>started\<close> were started before it,
  from state \<open>m\<close> on.\<close>

definition clip_after :: "MotionManager \<Rightarrow> GestureType list \<Rightarrow> GestureType \<Rightarrow> MotionName" where
  "clip_after m started g = getMotionForGesture g (occurrence m g + count_list started g)"

definition three_calls ::
  "GestureType \<Rightarrow> GestureType \<Rightarrow> GestureType \<Rightarrow> MotionManager \<Rightarrow> MotionManager" where
  "three_calls g1 g2 g3 m = requestGesture g3 (requestGesture g2 (requestGesture g1 m))"

definition three_settled :: "outcome \<Rightarrow> outcome \<Rightarrow> outcome \<Rightarrow> MotionManager \<Rightarrow> MotionManager" where
  "three_settled r1 r2 r3 m = settle 0 r3 (settle 0 r2 (settle 0 r1 m))"

text \<open>A manager with its model attached and the first idle motion started.\<close>

definition ready_manager :: MotionManager where
  "ready_manager = settle 0 Resolved (mm_setModel new_manager)"

section \<open>Synchronization coordinator (services/SynchronizationCoordinator)\<close>

record SynchronizationEvent =
  ev_segments :: "TeachingSegment list"
  fullText :: string
  images :: "string list"

text \<open>The calls the coordinator makes on its collaborators, in order: the speech
  controller (\<open>textToSpeech\<close>, \<open>playAudio\<close>, \<open>stopAudio\<close>), the motion manager
  (\<open>returnToIdle\<close>, \<open>stop\<close>), the eye controller, and the start of its own background task
  \<open>executeGestureSequence(segments)\<close>. That task requests the gesture of each segment from
  the motion manager and waits for the reading time before the next; only its start is
  recorded here, its steps and its writes to \<open>currentSegmentIndex\<close> are not. The setters
  of the store are kept as the store's fields.\<close>

datatype collaborator_call =
    TextToSpeech string
  | PlayAudio string
  | StopAudio
  | StartGestureSequence "TeachingSegment list"
  | MotionReturnToIdle
  | MotionStop
  | EyeLookLeft nat
  | EyeLookRight nat
  | EyeLookCenter

text \<open>\<open>executeTeachingSequence\<close> is \<open>async\<close>. A running execution is suspended at one of its
  \<open>await\<close>s: the first synthesis, the retry, the audio playback (the gesture task running
  beside it), the gesture task, \<open>returnToIdle\<close> on the success path, \<open>returnToIdle\<close> in
  the \<open>catch\<close>.\<close>

datatype sync_phase =
    AwaitTTS
  | AwaitTTSRetry
  | AwaitAudio
  | AwaitGestures
  | AwaitIdle
  | AwaitIdleAfterError

text \<open>How an awaited promise settles; a resolved synthesis carries the audio URL.\<close>

datatype settled = Fulfilled string | Failed

record Coordinator =
  isExecuting :: bool
  eventQueue :: "SynchronizationEvent list"
  currentSegmentIndex :: nat
  leftPanelContent :: string
  rightPanelImages :: "string list"
  isSpeaking :: bool
  isTeaching :: bool
  frames :: "(SynchronizationEvent \<times> sync_phase) list"
  calls :: "collaborator_call list"

definition new_coordinator :: Coordinator where
  "new_coordinator =
     \<lparr>isExecuting = False, eventQueue = [], currentSegmentIndex = 0, leftPanelContent = [],
      rightPanelImages = [], isSpeaking = False, isTeaching = False, frames = [], calls = []\<rparr>"

definition SPEECH_ERROR_MESSAGE :: string where
  "SPEECH_ERROR_MESSAGE =
     ''Sorry, I encountered an error with speech generation. Please try again.''"

definition call :: "collaborator_call \<Rightarrow> Coordinator \<Rightarrow> Coordinator" where
  "call x c = c\<lparr>calls := calls c @ [x]\<rparr>"

definition suspend :: "SynchronizationEvent \<Rightarrow> sync_phase \<Rightarrow> Coordinator \<Rightarrow> Coordinator" where
  "suspend event phase c = c\<lparr>frames := frames c @ [(event, phase)]\<rparr>"

text \<open>\<open>executeTeachingSequence\<close> from its entry to the first \<open>await\<close>.\<close>

definition executeTeachingSequence :: "SynchronizationEvent \<Rightarrow> Coordinator \<Rightarrow> Coordinator" where
  "executeTeachingSequence event c =
     (if isExecuting c then c\<lparr>eventQueue := eventQueue c @ [event]\<rparr>
      else let c1 = c\<lparr>isExecuting := True, currentSegmentIndex := 0\<rparr>;
               c2 = c1\<lparr>leftPanelContent := fullText event\<rparr>;
               c3 = (if length (images event) > 0
                     then call (EyeLookLeft 4000) (c2\<lparr>rightPanelImages := images event\<rparr>)
                     else c2)
           in suspend event AwaitTTS (call (TextToSpeech (fullText event)) c3))"

text \<open>The \<open>finally\<close> block; the queued event it takes runs up to its own first \<open>await\<close>.\<close>

definition finally_block :: "Coordinator \<Rightarrow> Coordinator" where
  "finally_block c =
     (let c1 = c\<lparr>isExecuting := False, isTeaching := False\<rparr>
      in if length (eventQueue c1) > 0
         then executeTeachingSequence (hd (eventQueue c1)) (c1\<lparr>eventQueue := tl (eventQueue c1)\<rparr>)
         else c1)"

text \<open>The \<open>catch\<close> block up to its \<open>await\<close>, and after it.\<close>

definition catch_block :: "SynchronizationEvent \<Rightarrow> Coordinator \<Rightarrow> Coordinator" where
  "catch_block event c =
     suspend event AwaitIdleAfterError (call MotionReturnToIdle (c\<lparr>isSpeaking := False\<rparr>))"

definition after_catch :: "Coordinator \<Rightarrow> Coordinator" where
  "after_catch c =
     finally_block ((call EyeLookCenter c)\<lparr>leftPanelContent := SPEECH_ERROR_MESSAGE\<rparr>)"

text \<open>Steps 4 and 5 once the audio URL is there, up to \<open>await playAudio\<close>.\<close>

definition start_playback :: "SynchronizationEvent \<Rightarrow> string \<Rightarrow> Coordinator \<Rightarrow> Coordinator" where
  "start_playback event audioUrl c =
     (let c1 = call (StartGestureSequence (ev_segments event)) c;
          c2 = c1\<lparr>isSpeaking := True\<rparr>;
          c3 = call (EyeLookRight 5000) c2
      in suspend event AwaitAudio (call (PlayAudio audioUrl) c3))"

text \<open>The code between one \<open>await\<close> and the next, for each \<open>await\<close> and each way its promise
  can settle. A rejection inside the outer \<open>try\<close> enters the \<open>catch\<close>; one inside the \<open>catch\<close>
  leaves it for the \<open>finally\<close> block.\<close>

fun continue :: "SynchronizationEvent \<Rightarrow> sync_phase \<Rightarrow> settled \<Rightarrow> Coordinator \<Rightarrow> Coordinator" where
  "continue event AwaitTTS (Fulfilled audioUrl) c = start_playback event audioUrl c"
| "continue event AwaitTTS Failed c =
     suspend event AwaitTTSRetry (call (TextToSpeech (fullText event)) c)"
| "continue event AwaitTTSRetry (Fulfilled audioUrl) c = start_playback event audioUrl c"
| "continue event AwaitTTSRetry Failed c = catch_block event c"
| "continue event AwaitAudio (Fulfilled v) c = suspend event AwaitGestures (c\<lparr>isSpeaking := False\<rparr>)"
| "continue event AwaitAudio Failed c = catch_block event c"
| "continue event AwaitGestures (Fulfilled v) c = suspend event AwaitIdle (call MotionReturnToIdle c)"
| "continue event AwaitGestures Failed c = catch_block event c"
| "continue event AwaitIdle (Fulfilled v) c = finally_block (call EyeLookCenter c)"
| "continue event AwaitIdle Failed c = catch_block event c"
| "continue event AwaitIdleAfterError (Fulfilled v) c = after_catch c"
| "continue event AwaitIdleAfterError Failed c = finally_block c"

text \<open>The promise awaited by the \<open>i\<close>-th suspended execution settles.\<close>

definition resume :: "nat \<Rightarrow> settled \<Rightarrow> Coordinator \<Rightarrow> Coordinator" where
  "resume i result c =
     (if i < length (frames c)
      then case frames c ! i of
             (event, phase) \<Rightarrow>
               continue event phase result
                 (c\<lparr>frames := take i (frames c) @ drop (Suc i) (frames c)\<rparr>)
      else c)"

definition interrupt :: "Coordinator \<Rightarrow> Coordinator" where
  "interrupt c =
     (let c1 = call EyeLookCenter (call MotionStop (call StopAudio c));
          c2 = c1\<lparr>eventQueue := [], isExecuting := False\<rparr>
      in c2\<lparr>isSpeaking := False, isTeaching := False\<rparr>)"

text \<open>What can happen to the coordinator: a call of \<open>executeTeachingSequence\<close>, an awaited
  promise settling, or a call of \<open>interrupt()\<close>.\<close>

datatype sync_op = Execute SynchronizationEvent | Settled nat settled | Interrupt

fun sync_apply :: "Coordinator \<Rightarrow> sync_op \<Rightarrow> Coordinator" where
  "sync_apply c (Execute event) = executeTeachingSequence event c"
| "sync_apply c (Settled i result) = resume i result c"
| "sync_apply c Interrupt = interrupt c"

definition sync_run :: "sync_op list \<Rightarrow> Coordinator" where
  "sync_run ops = foldl sync_apply new_coordinator ops"

text \<open>A run of operations keeps \<open>interrupt()\<close> at rest when each call of it comes at a
  moment with no execution suspended.\<close>

fun interrupts_at_rest :: "Coordinator \<Rightarrow> sync_op list \<Rightarrow> bool" where
  "interrupts_at_rest c [] = True"
| "interrupts_at_rest c (op # ops) =
     ((if op = Interrupt then frames c = [] else True) \<and>
      interrupts_at_rest (sync_apply c op) ops)"

definition is_synthesis :: "collaborator_call \<Rightarrow> bool" where
  "is_synthesis x = (case x of TextToSpeech t \<Rightarrow> True | _ \<Rightarrow> False)"

definition is_playback :: "collaborator_call \<Rightarrow> bool" where
  "is_playback x =
     (case x of PlayAudio u \<Rightarrow> True | StartGestureSequence s \<Rightarrow> True | _ \<Rightarrow> False)"

text \<open>One execution in which both synthesis attempts fail: the call, the two rejections,
  and the \<open>returnToIdle\<close> of the \<open>catch\<close> resolving.\<close>

definition tts_always_fails :: "SynchronizationEvent \<Rightarrow> Coordinator \<Rightarrow> Coordinator" where
  "tts_always_fails event c =
     resume 0 (Fulfilled []) (resume 0 Failed (resume 0 Failed (executeTeachingSequence event c)))"

definition quiescent :: "Coordinator \<Rightarrow> bool" where
  "quiescent c \<longleftrightarrow> \<not> isExecuting c \<and> frames c = [] \<and> eventQueue c = []"

definition single_execution :: "Coordinator \<Rightarrow> bool" where
  "single_execution c \<longleftrightarrow>
     length (frames c) \<le> 1 \<and> (isExecuting c \<longleftrightarrow> frames c \<noteq> []) \<and>
     (isExecuting c \<or> eventQueue c = [])"

text \<open>A request without segments or images, for the examples.\<close>

definition plain_event :: "string \<Rightarrow> SynchronizationEvent" where
  "plain_event t = \<lparr>ev_segments = [], fullText = t, images = []\<rparr>"

definition request_A :: SynchronizationEvent where
  "request_A = plain_event ''A.''"

definition request_B :: SynchronizationEvent where
  "request_B = plain_event ''B.''"

text \<open>Request A is running and has reached its last \<open>await\<close>, request B is queued; and
  request A alone, with both synthesis attempts failed, waiting in its \<open>catch\<close> block.\<close>

definition A_finishing_B_queued :: Coordinator where
  "A_finishing_B_queued =
     sync_run [Execute request_A, Execute request_B, Settled 0 (Fulfilled ''url''),
               Settled 0 (Fulfilled []), Settled 0 (Fulfilled [])]"

definition A_failing :: Coordinator where
  "A_failing = sync_run [Execute request_A, Settled 0 Failed, Settled 0 Failed]"

text \<open>A run with \<open>interrupt()\<close> while request A is suspended at its first \<open>await\<close>, followed
  by request B; and a run with \<open>interrupt()\<close> at rest.\<close>

definition interrupt_mid_execution :: "sync_op list" where
  "interrupt_mid_execution = [Execute request_A, Interrupt, Execute request_B]"

definition interrupt_at_rest :: "sync_op list" where
  "interrupt_at_rest = [Interrupt, Execute request_A, Execute request_B]"

chapter \<open>The verification\<close>

section \<open>Motion selector\<close>

lemma mapping_total: "\<exists>motions. map_of MOTION_MAPPING g = Some motions \<and> motions \<noteq> []"
  by (cases g) (simp_all add: MOTION_MAPPING_def)

lemma selected_in_list:
  assumes "map_of MOTION_MAPPING g = Some motions" and "motions \<noteq> []"
  shows "getMotionForGesture g index \<in> set motions"
  using assms by (simp add: getMotionForGesture_def)

lemma mapped_clips_in_catalog:
  assumes "map_of MOTION_MAPPING g = Some motions" and "m \<in> set motions"
  shows "\<exists>config. getMotionConfig m = Some config \<and> name config = m"
  using assms
  by (cases g) (auto simp: MOTION_MAPPING_def getMotionConfig_def MOTION_CONFIGS_def mk_config_def)

lemma find_in_catalog:
  assumes "getMotionConfig m = Some config"
  shows "config \<in> set MOTION_CONFIGS \<and> name config = m"
proof -
  from assms have "find (\<lambda>c. name c = m) MOTION_CONFIGS = Some config"
    by (simp add: getMotionConfig_def)
  then obtain i where "i < length MOTION_CONFIGS" and "MOTION_CONFIGS ! i = config"
    and "name config = m"
    by (auto simp: find_Some_iff)
  then show ?thesis by (metis nth_mem)
qed

text \<open>Claim C10. For every gesture of the enumeration and every counter, the clip picked
  by \<open>getMotionForGesture\<close> is the name of an entry of \<open>MOTION_CONFIGS\<close>; the fallback
  branch is never taken, because \<open>MOTION_MAPPING\<close> gives every gesture a non-empty list and
  the pick is the element at \<open>counter mod length\<close> of that list; and \<open>getMotionDuration\<close>
  of the pick goes through the catalog branch (the lookup succeeds), giving the entry's
  seconds times 1000 rather than the value of the unknown-clip branch. (For the clips
  of three seconds the catalog value is 3000 ms too; it is the entry's, not the default.)\<close>

theorem C10_selected_clip_in_catalog:
  "\<not> motion_fallback g \<and>
   (\<exists>motions. map_of MOTION_MAPPING g = Some motions \<and> motions \<noteq> [] \<and>
      getMotionForGesture g counter = motions ! (counter mod length motions)) \<and>
   (\<exists>config. config \<in> set MOTION_CONFIGS \<and>
      name config = getMotionForGesture g counter \<and>
      getMotionConfig (getMotionForGesture g counter) = Some config \<and>
      getMotionDuration (getMotionForGesture g counter) = duration config * 1000)"
proof -
  obtain motions where m: "map_of MOTION_MAPPING g = Some motions" "motions \<noteq> []"
    using mapping_total by blast
  have fb: "\<not> motion_fallback g"
    using m by (simp add: motion_fallback_def)
  have pick: "getMotionForGesture g counter = motions ! (counter mod length motions)"
    using m by (simp add: getMotionForGesture_def)
  have "getMotionForGesture g counter \<in> set motions"
    using m by (rule selected_in_list)
  with m(1) obtain config where c: "getMotionConfig (getMotionForGesture g counter) = Some config"
    using mapped_clips_in_catalog by blast
  then have inc: "config \<in> set MOTION_CONFIGS \<and> name config = getMotionForGesture g counter"
    by (rule find_in_catalog)
  have dur: "getMotionDuration (getMotionForGesture g counter) = duration config * 1000"
    using c by (simp add: getMotionDuration_def)
  from fb m pick c inc dur show ?thesis by blast
qed

section \<open>Merging segments\<close>

lemma optimize_loop_acc:
  "optimize_loop optimized current rest = optimized @ optimize_loop [] current rest"
proof (induction rest arbitrary: optimized current)
  case Nil
  show ?case by simp
next
  case (Cons segment rest)
  show ?case
  proof (cases "same_intent current segment")
    case True
    then show ?thesis using Cons.IH [of optimized] by simp
  next
    case False
    then show ?thesis
      using Cons.IH [of "optimized @ [current]" segment] Cons.IH [of "[current]" segment]
      by simp
  qed
qed

lemma optimize_loop_head:
  "\<exists>c ys. optimize_loop [] current rest = c # ys \<and>
     gesture c = gesture current \<and> seg_type c = seg_type current"
proof (induction rest arbitrary: current)
  case Nil
  show ?case by simp
next
  case (Cons segment rest)
  show ?case
  proof (cases "same_intent current segment")
    case True
    then show ?thesis
      using Cons.IH [of "current\<lparr>content := content current @ '' '' @ content segment\<rparr>"]
      by simp
  next
    case False
    then show ?thesis
      using optimize_loop_acc [of "[current]" segment rest] by simp
  qed
qed

lemma optimize_loop_churn_free: "churn_free (optimize_loop [] current rest)"
proof (induction rest arbitrary: current)
  case Nil
  show ?case by simp
next
  case (Cons segment rest)
  show ?case
  proof (cases "same_intent current segment")
    case True
    then show ?thesis using Cons.IH by simp
  next
    case False
    obtain c ys where h: "optimize_loop [] segment rest = c # ys"
      "gesture c = gesture segment" "seg_type c = seg_type segment"
      using optimize_loop_head by blast
    have "churn_free (c # ys)" using Cons.IH [of segment] h(1) by simp
    moreover have "\<not> same_intent current c"
      using False h by (simp add: same_intent_def)
    ultimately have "churn_free (current # c # ys)" by simp
    then show ?thesis
      using False h(1) optimize_loop_acc [of "[current]" segment rest] by simp
  qed
qed

lemma optimize_loop_fixed:
  "churn_free (current # rest) \<Longrightarrow> optimize_loop [] current rest = current # rest"
proof (induction rest arbitrary: current)
  case Nil
  show ?case by simp
next
  case (Cons segment rest)
  then have ne: "\<not> same_intent current segment" and cf: "churn_free (segment # rest)"
    by simp_all
  have "optimize_loop [] current (segment # rest) = [current] @ optimize_loop [] segment rest"
    using ne optimize_loop_acc [of "[current]" segment rest] by simp
  then show ?case using Cons.IH [OF cf] by simp
qed

text \<open>Claim C9. \<open>optimizeSegments\<close> merges adjacent segments with the same
  \<open>(type, gesture)\<close>: a segment that agrees with its predecessor on both is absorbed into
  it, the contents joined by one space (the other fields of the predecessor are kept); a
  segment that differs starts a new output segment. Running it a second time changes
  nothing.\<close>

theorem C9_optimizeSegments_idempotent:
  "optimizeSegments (optimizeSegments segments) = optimizeSegments segments \<and>
   optimizeSegments (a # b # rest) =
     (if same_intent a b
      then optimizeSegments (a\<lparr>content := content a @ '' '' @ content b\<rparr> # rest)
      else a # optimizeSegments (b # rest)) \<and>
   optimizeSegments [a] = [a] \<and> optimizeSegments [] = []"
proof -
  have idem: "optimizeSegments (optimizeSegments segments) = optimizeSegments segments"
  proof (cases segments)
    case Nil
    then show ?thesis by (simp add: optimizeSegments_def)
  next
    case (Cons s0 rest)
    obtain c ys where h: "optimize_loop [] s0 rest = c # ys"
      using optimize_loop_head by blast
    have "churn_free (c # ys)"
      using optimize_loop_churn_free [of s0 rest] h by simp
    then have "optimize_loop [] c ys = c # ys" by (rule optimize_loop_fixed)
    then show ?thesis using Cons h by (simp add: optimizeSegments_def)
  qed
  have step: "optimizeSegments (a # b # rest) =
     (if same_intent a b
      then optimizeSegments (a\<lparr>content := content a @ '' '' @ content b\<rparr> # rest)
      else a # optimizeSegments (b # rest))"
    using optimize_loop_acc [of "[a]" b rest]
    by (simp add: optimizeSegments_def)
  show ?thesis using idem step by (simp add: optimizeSegments_def)
qed

section \<open>Session manager\<close>

lemma addExchange_bound: "getExchangeCount (addExchange u a now sid m) \<le> MAX_EXCHANGES + 1"
  by (auto simp: getExchangeCount_def addExchange_def summarizeContext_def saveToStorage_def
      initializeSession_def Let_def slice_last_def slice_front_def MAX_EXCHANGES_def
      split: option.splits)

lemma summarizeContext_bound:
  "getExchangeCount (summarizeContext m) \<le> max (getExchangeCount m) (MAX_EXCHANGES + 1)"
  by (auto simp: getExchangeCount_def summarizeContext_def Let_def slice_last_def
      slice_front_def MAX_EXCHANGES_def split: option.splits)

lemma addExchange_Some:
  assumes "sm_context m = Some c"
  shows "\<exists>c'. sm_context (addExchange u a now sid m) = Some c' \<and>
     startTime c' = startTime c \<and>
     exchanges c' =
       (if length (exchanges c) < MAX_EXCHANGES
        then exchanges c @ [mk_exchange (u, a, now)]
        else summary_exchange (length (exchanges c) + 1 - MAX_EXCHANGES) (startTime c) #
             drop (length (exchanges c) + 1 - MAX_EXCHANGES) (exchanges c @ [mk_exchange (u, a, now)]))"
  using assms
  by (auto simp: addExchange_def summarizeContext_def saveToStorage_def mk_exchange_def
      summary_exchange_def Let_def slice_last_def slice_front_def MAX_EXCHANGES_def)

lemma addExchange_None:
  assumes "sm_context m = None"
  shows "\<exists>c'. sm_context (addExchange u a now sid m) = Some c' \<and>
     startTime c' = now \<and> exchanges c' = [mk_exchange (u, a, now)]"
  using assms
  by (auto simp: addExchange_def summarizeContext_def saveToStorage_def mk_exchange_def
      initializeSession_def Let_def MAX_EXCHANGES_def)

lemma add_all_short:
  assumes "sm_context m = Some c" "length (exchanges c) + length xs \<le> MAX_EXCHANGES"
  shows "\<exists>c'. sm_context (add_all xs sid m) = Some c' \<and> startTime c' = startTime c \<and>
     exchanges c' = exchanges c @ map mk_exchange xs"
  using assms
proof (induction xs arbitrary: m c)
  case Nil
  then show ?case by simp
next
  case (Cons x xs)
  obtain u a now where x: "x = (u, a, now)" by (cases x) auto
  from Cons.prems have lt: "length (exchanges c) < MAX_EXCHANGES" by simp
  obtain c1 where c1: "sm_context (addExchange u a now sid m) = Some c1"
    "startTime c1 = startTime c" "exchanges c1 = exchanges c @ [mk_exchange (u, a, now)]"
    using addExchange_Some [OF Cons.prems(1), of u a now sid] lt by auto
  have "length (exchanges c1) + length xs \<le> MAX_EXCHANGES"
    using Cons.prems(2) c1(3) by simp
  from Cons.IH [OF c1(1) this] show ?case
    using c1 x by auto
qed

lemma add_all_full:
  assumes "sm_context m = Some c" "length (exchanges c) = MAX_EXCHANGES + 1" "xs \<noteq> []"
  shows "\<exists>c' k. sm_context (add_all xs sid m) = Some c' \<and> startTime c' = startTime c \<and>
     exchanges c' = summary_exchange k (startTime c) #
        drop (length xs + 1) (exchanges c @ map mk_exchange xs)"
  using assms
proof (induction xs arbitrary: m c)
  case Nil
  then show ?case by simp
next
  case (Cons x xs)
  obtain u a now where x: "x = (u, a, now)" by (cases x) auto
  obtain c1 where c1: "sm_context (addExchange u a now sid m) = Some c1"
    "startTime c1 = startTime c"
    "exchanges c1 = summary_exchange 2 (startTime c) # drop 2 (exchanges c @ [mk_exchange (u, a, now)])"
    using addExchange_Some [OF Cons.prems(1), of u a now sid] Cons.prems(2)
    by (auto simp: MAX_EXCHANGES_def)
  have len1: "length (exchanges c1) = MAX_EXCHANGES + 1"
    using c1(3) Cons.prems(2) by simp
  show ?case
  proof (cases "xs = []")
    case True
    then show ?thesis using c1 x by (auto simp: numeral_2_eq_2)
  next
    case False
    from Cons.IH [OF c1(1) len1 False] obtain c' k where
      h: "sm_context (add_all xs sid (addExchange u a now sid m)) = Some c'"
         "startTime c' = startTime c1"
         "exchanges c' = summary_exchange k (startTime c1) #
            drop (length xs + 1) (exchanges c1 @ map mk_exchange xs)"
      by blast
    have "drop (length xs + 1) (exchanges c1 @ map mk_exchange xs) =
          drop (length (x # xs) + 1) (exchanges c @ map mk_exchange (x # xs))"
      using c1(3) x Cons.prems(2) by (simp add: MAX_EXCHANGES_def drop_Cons')
    then show ?thesis using h c1(2) x by auto
  qed
qed


lemma add_all_append: "add_all (xs @ ys) sid m = add_all ys sid (add_all xs sid m)"
  by (induction xs arbitrary: m) auto

lemma add_all_beyond_cap:
  assumes "MAX_EXCHANGES < length xs"
  shows "\<exists>c k. sm_context (add_all xs sid (initializeSession now sid m)) = Some c \<and>
           length (exchanges c) = MAX_EXCHANGES + 1 \<and>
           exchanges c = summary_exchange k now #
             map mk_exchange (drop (length xs - MAX_EXCHANGES) xs)"
proof -
  define m0 where "m0 = initializeSession now sid m"
  define c0 where "c0 = \<lparr>sessionId = sid, exchanges = [], startTime = now, lastActivityTime = now\<rparr>"
  have m0: "sm_context m0 = Some c0"
    by (simp add: m0_def c0_def initializeSession_def saveToStorage_def)
  define pre where "pre = take MAX_EXCHANGES xs"
  define post where "post = drop MAX_EXCHANGES xs"
  have xs: "xs = pre @ post" by (simp add: pre_def post_def)
  have lf: "length pre = MAX_EXCHANGES" using assms by (simp add: pre_def)
  obtain x rest where post: "post = x # rest"
    using assms by (cases post) (auto simp: post_def)
  obtain u a t where x: "x = (u, a, t)" by (cases x) auto
  obtain c1 where c1: "sm_context (add_all pre sid m0) = Some c1" "startTime c1 = now"
    "exchanges c1 = map mk_exchange pre"
    using add_all_short [OF m0, of pre sid] lf by (auto simp: c0_def)
  obtain c2 where c2: "sm_context (addExchange u a t sid (add_all pre sid m0)) = Some c2"
    "startTime c2 = now"
    "exchanges c2 = summary_exchange 1 now # drop 1 (map mk_exchange pre @ [mk_exchange x])"
    using addExchange_Some [OF c1(1), of u a t sid] c1(2,3) lf x by auto
  have l2: "length (exchanges c2) = MAX_EXCHANGES + 1"
    using c2(3) lf by simp
  have e2: "exchanges c2 = summary_exchange 1 now # drop 1 (map mk_exchange (pre @ [x]))"
    using c2(3) by simp
  have spl: "add_all xs sid m0 = add_all rest sid (addExchange u a t sid (add_all pre sid m0))"
    by (simp add: xs post x add_all_append)
  have lx: "length xs - MAX_EXCHANGES = length rest + 1"
    using xs lf post by simp
  show ?thesis
  proof (cases "rest = []")
    case True
    then have "drop (length xs - MAX_EXCHANGES) xs = drop 1 (pre @ [x])"
      using xs post lx by simp
    moreover have "exchanges c2 = summary_exchange 1 now # map mk_exchange (drop 1 (pre @ [x]))"
      using e2 by (simp only: drop_map)
    ultimately have "exchanges c2 =
        summary_exchange 1 now # map mk_exchange (drop (length xs - MAX_EXCHANGES) xs)"
      by simp
    then show ?thesis
      using spl True c2(1) l2 unfolding m0_def by auto
  next
    case False
    from add_all_full [OF c2(1) l2 False, of sid] obtain c' k where
      h: "sm_context (add_all rest sid (addExchange u a t sid (add_all pre sid m0))) = Some c'"
         "exchanges c' = summary_exchange k (startTime c2) #
            drop (length rest + 1) (exchanges c2 @ map mk_exchange rest)"
      by blast
    have "exchanges c2 @ map mk_exchange rest =
          summary_exchange 1 now # drop 1 (map mk_exchange xs)"
      using e2 xs post lf by (cases pre) (auto simp: MAX_EXCHANGES_def)
    then have "drop (length rest + 1) (exchanges c2 @ map mk_exchange rest) =
          drop (length rest + 1) (map mk_exchange xs)"
      by simp
    then have "drop (length rest + 1) (exchanges c2 @ map mk_exchange rest) =
          map mk_exchange (drop (length xs - MAX_EXCHANGES) xs)"
      using lx by (simp only: drop_map)
    then have ex: "exchanges c' = summary_exchange k now #
          map mk_exchange (drop (length xs - MAX_EXCHANGES) xs)"
      using h(2) c2(2) by simp
    have "length (drop (length xs - MAX_EXCHANGES) xs) = MAX_EXCHANGES"
      using assms by simp
    then have "length (exchanges c') = MAX_EXCHANGES + 1"
      using ex by simp
    then show ?thesis
      using spl h(1) ex unfolding m0_def by auto
  qed
qed


text \<open>Claim C7. Whatever the state before, after \<open>addExchange\<close>, \<open>initializeSession\<close> or
  \<open>clearContext\<close> the history holds at most \<open>MAX_EXCHANGES + 1 = 11\<close> exchanges. After more
  than ten \<open>addExchange\<close> calls on a new session (fifteen, for one), it holds exactly eleven:
  the summary exchange first, then the ten most recent exchanges in the order they were
  added.\<close>

theorem C7_history_bounded:
  "getExchangeCount (addExchange u a now sid m) \<le> MAX_EXCHANGES + 1 \<and>
   getExchangeCount (initializeSession now sid m) \<le> MAX_EXCHANGES + 1 \<and>
   getExchangeCount (clearContext now sid m) \<le> MAX_EXCHANGES + 1 \<and>
   MAX_EXCHANGES = 10 \<and>
   (MAX_EXCHANGES < length xs \<longrightarrow>
     (\<exists>c k. sm_context (add_all xs sid (initializeSession now sid m)) = Some c \<and>
        length (exchanges c) = MAX_EXCHANGES + 1 \<and>
        exchanges c =
          summary_exchange k now # map mk_exchange (drop (length xs - MAX_EXCHANGES) xs)))"
proof -
  have a: "getExchangeCount (addExchange u a now sid m) \<le> MAX_EXCHANGES + 1"
    by (rule addExchange_bound)
  have b: "getExchangeCount (initializeSession now sid m) \<le> MAX_EXCHANGES + 1"
    by (simp add: getExchangeCount_def initializeSession_def saveToStorage_def)
  have c: "getExchangeCount (clearContext now sid m) \<le> MAX_EXCHANGES + 1"
    by (simp add: getExchangeCount_def clearContext_def initializeSession_def
        saveToStorage_def removeFromStorage_def)
  show ?thesis
    using a b c add_all_beyond_cap [of xs sid now m] by (simp add: MAX_EXCHANGES_def)
qed

theorem C7_history_bounded_witness:
  "MAX_EXCHANGES < length fifteen_inputs \<and>
   (\<exists>c k. sm_context (add_all fifteen_inputs ''s1''
               (initializeSession 0 ''s1'' \<lparr>sm_context = None, storage = None\<rparr>)) = Some c \<and>
      length (exchanges c) = 11 \<and>
      exchanges c = summary_exchange k 0 # map mk_exchange (drop 5 fifteen_inputs))"
proof -
  have l: "length fifteen_inputs = 15" by (simp add: fifteen_inputs_def)
  then have h: "MAX_EXCHANGES < length fifteen_inputs" by (simp add: MAX_EXCHANGES_def)
  have "MAX_EXCHANGES < length fifteen_inputs \<longrightarrow>
     (\<exists>c k. sm_context (add_all fifteen_inputs ''s1''
               (initializeSession 0 ''s1'' \<lparr>sm_context = None, storage = None\<rparr>)) = Some c \<and>
        length (exchanges c) = MAX_EXCHANGES + 1 \<and>
        exchanges c =
          summary_exchange k 0 # map mk_exchange (drop (length fifteen_inputs - MAX_EXCHANGES) fifteen_inputs))"
    using C7_history_bounded [of "''x''" "''y''" 0 "''s1''"
        "\<lparr>sm_context = None, storage = None\<rparr>" fifteen_inputs]
    by blast
  with h obtain c k where
    "sm_context (add_all fifteen_inputs ''s1''
               (initializeSession 0 ''s1'' \<lparr>sm_context = None, storage = None\<rparr>)) = Some c"
    "length (exchanges c) = MAX_EXCHANGES + 1"
    "exchanges c =
          summary_exchange k 0 # map mk_exchange (drop (length fifteen_inputs - MAX_EXCHANGES) fifteen_inputs)"
    by blast
  moreover have "length fifteen_inputs - MAX_EXCHANGES = 5" "MAX_EXCHANGES + 1 = 11"
    using l by (simp_all add: MAX_EXCHANGES_def)
  ultimately show ?thesis using h by auto
qed

section \<open>Classifying sentences\<close>

lemma parse_loop_map:
  "parse_loop segments sentences =
     segments @ map classify (filter (\<lambda>t. t \<noteq> []) (map trim sentences))"
  by (induction sentences arbitrary: segments) (simp_all add: Let_def)

lemma dropWhile_terminator_head:
  "dropWhile non_terminator s = c # cs \<Longrightarrow> is_terminator c"
  using hd_dropWhile [of non_terminator s] by (auto simp: non_terminator_def)

lemma sentence_shape_match:
  assumes "body \<noteq> []" "list_all non_terminator body" "punct \<noteq> []" "list_all is_terminator punct"
  shows "sentence_shape (body @ punct)"
proof -
  obtain p ps where p: "punct = p # ps" using assms(3) by (cases punct) auto
  have np: "\<not> non_terminator p" using assms(4) p by (simp add: non_terminator_def)
  have all: "\<forall>x\<in>set body. non_terminator x" using assms(2) by (simp add: list_all_iff)
  have t: "takeWhile non_terminator (body @ punct) = body"
    using all np p by (simp add: takeWhile_append2)
  have d: "dropWhile non_terminator (body @ punct) = punct"
    using all np p by (simp add: dropWhile_append2)
  show ?thesis using t d assms by (simp add: sentence_shape_def)
qed

lemma match_sentences_shape: "list_all sentence_shape (match_sentences s)"
proof (induction s rule: match_sentences.induct)
  case (1 s)
  define s1 where "s1 = dropWhile is_terminator s"
  define body where "body = takeWhile non_terminator s1"
  define rest where "rest = dropWhile non_terminator s1"
  define punct where "punct = takeWhile is_terminator rest"
  define rest2 where "rest2 = dropWhile is_terminator rest"
  show ?case
  proof (cases "s1 = [] \<or> rest = []")
    case True
    then show ?thesis
      by (subst match_sentences.simps) (auto simp: s1_def rest_def Let_def)
  next
    case False
    then have ne: "s1 \<noteq> []" "rest \<noteq> []" by simp_all
    have unfold: "match_sentences s = (body @ punct) # match_sentences rest2"
      using ne by (subst match_sentences.simps)
        (simp add: s1_def [symmetric] body_def [symmetric] rest_def [symmetric]
           punct_def [symmetric] rest2_def [symmetric] Let_def)
    have ih: "list_all sentence_shape (match_sentences rest2)"
      using "1.IH" [OF s1_def ne(1) body_def rest_def ne(2) punct_def rest2_def] .
    obtain c cs where r: "rest = c # cs" using ne(2) by (cases rest) auto
    then have tc: "is_terminator c"
      using dropWhile_terminator_head [of s1 c cs] by (simp add: rest_def)
    have pne: "punct \<noteq> []" using r tc by (simp add: punct_def)
    have pall: "list_all is_terminator punct"
      by (simp add: punct_def list_all_iff) (meson set_takeWhileD)
    have "s1 = body @ rest" by (simp add: body_def rest_def)
    obtain h hs where h: "s1 = h # hs" using ne(1) by (cases s1) auto
    then have "\<not> is_terminator h"
      using hd_dropWhile [of is_terminator s] by (auto simp: s1_def)
    then have bne: "body \<noteq> []" using h by (simp add: body_def non_terminator_def)
    have ball: "list_all non_terminator body"
      by (simp add: body_def list_all_iff) (meson set_takeWhileD)
    show ?thesis
      using unfold ih sentence_shape_match [OF bne ball pne pall] by simp
  qed
qed

lemma match_sentences_cover:
  "\<exists>post. s = takeWhile is_terminator s @ concat (match_sentences s) @ post \<and>
      list_all non_terminator post"
proof (induction s rule: match_sentences.induct)
  case (1 s)
  define s1 where "s1 = dropWhile is_terminator s"
  define body where "body = takeWhile non_terminator s1"
  define rest where "rest = dropWhile non_terminator s1"
  define punct where "punct = takeWhile is_terminator rest"
  define rest2 where "rest2 = dropWhile is_terminator rest"
  have s: "s = takeWhile is_terminator s @ s1" by (simp add: s1_def)
  have s1: "s1 = body @ rest" by (simp add: body_def rest_def)
  have ball: "list_all non_terminator body"
    by (simp add: body_def list_all_iff) (meson set_takeWhileD)
  show ?case
  proof (cases "s1 = [] \<or> rest = []")
    case True
    then have m: "match_sentences s = []"
      by (subst match_sentences.simps) (auto simp: s1_def rest_def Let_def)
    from True have "s1 = body" using s1 by auto
    then have "s = takeWhile is_terminator s @ concat (match_sentences s) @ body"
      using s m by simp
    then show ?thesis using ball by blast
  next
    case False
    then have ne: "s1 \<noteq> []" "rest \<noteq> []" by simp_all
    have unfold: "match_sentences s = (body @ punct) # match_sentences rest2"
      using ne by (subst match_sentences.simps)
        (simp add: s1_def [symmetric] body_def [symmetric] rest_def [symmetric]
           punct_def [symmetric] rest2_def [symmetric] Let_def)
    from "1.IH" [OF s1_def ne(1) body_def rest_def ne(2) punct_def rest2_def]
    obtain post where post:
      "rest2 = takeWhile is_terminator rest2 @ concat (match_sentences rest2) @ post"
      "list_all non_terminator post"
      by blast
    have "takeWhile is_terminator rest2 = []"
    proof (cases rest2)
      case Nil
      then show ?thesis by simp
    next
      case (Cons c cs)
      then have "\<not> is_terminator c"
        using hd_dropWhile [of is_terminator rest] by (auto simp: rest2_def)
      then show ?thesis using Cons by simp
    qed
    then have r2: "rest2 = concat (match_sentences rest2) @ post" using post(1) by simp
    have "rest = punct @ rest2" by (simp add: punct_def rest2_def)
    then have "s1 = concat (match_sentences s) @ post"
      using s1 unfold r2 by simp
    then have "s = takeWhile is_terminator s @ concat (match_sentences s) @ post"
      using s by simp
    then show ?thesis using post(2) by blast
  qed
qed

lemma example_sentences:
  "match_sentences example_text =
     [''Remember: gravity pulls objects down.'', '' Look at the diagram on screen.'']"
  unfolding example_text_def
  by (simp add: match_sentences.simps [of "CHR ''R'' # _"] match_sentences.simps [of "CHR '' '' # _"]
      match_sentences.simps [of "[]"] is_terminator_def non_terminator_def Let_def)


lemma example_first: "classify ''Remember: gravity pulls objects down.'' =
    new_segment T_emphasis ''Remember: gravity pulls objects down.'' G_emphasis None"
  by code_simp

lemma example_second: "classify ''Look at the diagram on screen.'' =
    new_segment T_image ''Look at the diagram on screen.'' G_pointRight
      (Some ''diagram on screen'')"
  by code_simp

lemma example_trims:
  "trim ''Remember: gravity pulls objects down.'' = ''Remember: gravity pulls objects down.''"
  "trim '' Look at the diagram on screen.'' = ''Look at the diagram on screen.''"
  by code_simp+


lemma parse_as_map:
  "parseTeachingContent text =
     map classify (filter (\<lambda>t. t \<noteq> []) (map trim (split_sentences text)))"
  by (simp add: parseTeachingContent_def parse_loop_map)

lemma content_classify: "content (classify t) = t"
  by (simp add: classify_def new_segment_def)

lemma parse_example:
  "parseTeachingContent example_text =
     [new_segment T_emphasis ''Remember: gravity pulls objects down.'' G_emphasis None,
      new_segment T_image ''Look at the diagram on screen.'' G_pointRight
        (Some ''diagram on screen'')]"
proof -
  have "split_sentences example_text =
     [''Remember: gravity pulls objects down.'', '' Look at the diagram on screen.'']"
    by (simp add: split_sentences_def example_sentences)
  then have "parseTeachingContent example_text =
     map classify [''Remember: gravity pulls objects down.'', ''Look at the diagram on screen.'']"
    unfolding parse_as_map using example_trims by simp
  then show ?thesis using example_first example_second by simp
qed

text \<open>What \<open>parseTeachingContent\<close> computes. It is a total function with no failing branch
  (the source has no \<open>throw\<close> and reads no index that can be absent, so its model returns a
  plain list). The empty text gives no segment. The pieces it classifies are the matches of
  \<open>[^.!?]+[.!?]+\<close>, each a run of non-terminators closed by a run of terminators, lying
  side by side in the text after its leading terminators and before a rest without
  terminator (the whole text is the one piece when nothing matches). The output is, in
  order, one segment per piece that is not blank, its content the trimmed piece,
  classified by the first rule that applies: emphasis keyword, else warning keyword, else
  image keyword (with the extracted query), else plain text. On the example text the result
  is the emphasis segment followed by the image segment, whose query is the object of the
  verb without its article, \<open>diagram on screen\<close>.\<close>

lemma parseTeachingContent_characterised:
  "parseTeachingContent [] = [] \<and>
   split_sentences text = (if match_sentences text = [] then [text] else match_sentences text) \<and>
   list_all sentence_shape (match_sentences text) \<and>
   (\<exists>post. text = takeWhile is_terminator text @ concat (match_sentences text) @ post \<and>
      list_all non_terminator post) \<and>
   parseTeachingContent text =
     map classify (filter (\<lambda>t. t \<noteq> []) (map trim (split_sentences text))) \<and>
   map content (parseTeachingContent text) =
     filter (\<lambda>t. t \<noteq> []) (map trim (split_sentences text)) \<and>
   content (classify t) = t \<and>
   seg_type (classify t) =
     (if isEmphasis t then T_emphasis else if isWarning t then T_text
      else if hasImageReference t then T_image else T_text) \<and>
   gesture (classify t) =
     Some (if isEmphasis t then G_emphasis else if isWarning t then G_warning
           else if hasImageReference t then G_pointRight else G_pointLeft) \<and>
   imageQuery (classify t) =
     (if \<not> isEmphasis t \<and> \<not> isWarning t \<and> hasImageReference t
      then Some (extractImageQuery t) else None) \<and>
   parseTeachingContent example_text =
     [\<lparr>seg_type = T_emphasis, content = ''Remember: gravity pulls objects down.'',
       gesture = Some G_emphasis, imageQuery = None, seg_duration = None\<rparr>,
      \<lparr>seg_type = T_image, content = ''Look at the diagram on screen.'',
       gesture = Some G_pointRight, imageQuery = Some ''diagram on screen'',
       seg_duration = None\<rparr>]"
proof -
  have e0: "parseTeachingContent [] = []"
    by (simp add: parseTeachingContent_def split_sentences_def match_sentences.simps [of "[]"]
        trim_def)
  have e1: "split_sentences text =
      (if match_sentences text = [] then [text] else match_sentences text)"
    by (simp add: split_sentences_def split: list.splits)
  have contents: "map content (parseTeachingContent text) =
      filter (\<lambda>t. t \<noteq> []) (map trim (split_sentences text))"
    unfolding parse_as_map by (simp add: comp_def content_classify)
  have ty: "seg_type (classify t) =
     (if isEmphasis t then T_emphasis else if isWarning t then T_text
      else if hasImageReference t then T_image else T_text)"
    by (simp add: classify_def new_segment_def)
  have ge: "gesture (classify t) =
     Some (if isEmphasis t then G_emphasis else if isWarning t then G_warning
           else if hasImageReference t then G_pointRight else G_pointLeft)"
    by (simp add: classify_def new_segment_def)
  have qu: "imageQuery (classify t) =
     (if \<not> isEmphasis t \<and> \<not> isWarning t \<and> hasImageReference t
      then Some (extractImageQuery t) else None)"
    by (simp add: classify_def new_segment_def)
  have ex: "parseTeachingContent example_text =
     [\<lparr>seg_type = T_emphasis, content = ''Remember: gravity pulls objects down.'',
       gesture = Some G_emphasis, imageQuery = None, seg_duration = None\<rparr>,
      \<lparr>seg_type = T_image, content = ''Look at the diagram on screen.'',
       gesture = Some G_pointRight, imageQuery = Some ''diagram on screen'',
       seg_duration = None\<rparr>]"
    unfolding parse_example by (simp add: new_segment_def)
  show ?thesis
    using e0 e1 match_sentences_shape [of "text"] match_sentences_cover [of "text"]
      parse_as_map [of "text"] contents content_classify [of t] ty ge qu ex
    by blast
qed

text \<open>Claim C6: every sentence of the text that is not blank is classified, in order. The
  sentence after the last terminator is lost. The text \<open>First point. Look at the diagram\<close>
  gives the one segment of \<open>First point.\<close> and none for \<open>Look at the diagram\<close>: the pattern
  matches up to a terminator only, and the whole text is taken only when nothing has
  matched. That is the case of \<open>Look at the diagram\<close> as a text of its own, which gives the
  image segment with the query \<open>diagram\<close>; and with the terminator written, the two
  sentences give the two segments.\<close>

theorem C6_unterminated_sentence_dropped:
  "parseTeachingContent ''First point. Look at the diagram'' =
     [\<lparr>seg_type = T_text, content = ''First point.'', gesture = Some G_pointLeft,
       imageQuery = None, seg_duration = None\<rparr>] \<and>
   parseTeachingContent ''Look at the diagram'' =
     [\<lparr>seg_type = T_image, content = ''Look at the diagram'', gesture = Some G_pointRight,
       imageQuery = Some ''diagram'', seg_duration = None\<rparr>] \<and>
   parseTeachingContent ''First point. Look at the diagram.'' =
     [\<lparr>seg_type = T_text, content = ''First point.'', gesture = Some G_pointLeft,
       imageQuery = None, seg_duration = None\<rparr>,
      \<lparr>seg_type = T_image, content = ''Look at the diagram.'', gesture = Some G_pointRight,
       imageQuery = Some ''diagram'', seg_duration = None\<rparr>]"
  by code_simp

section \<open>Realtime speech engine\<close>

lemma se_advance_idle:
  "next_due target (se_timers e) = None \<Longrightarrow>
     se_advance target e = e\<lparr>se_clock := max (se_clock e) target\<rparr>"
  by (subst se_advance.simps) simp

lemma se_advance_fire:
  "next_due target (se_timers e) = Some t \<Longrightarrow> se_advance target e = se_advance target (se_fire t e)"
  by (subst se_advance.simps) simp

lemma next_due_Nil: "next_due limit [] = None"
  by (simp add: next_due_def)

lemma next_due_single:
  "next_due limit [(h, d, cb)] = (if d \<le> limit then Some (h, d, cb) else None)"
  by (simp add: next_due_def timer_due_def)

lemma clearTimeout_single: "clearTimeout h [(h, d, cb)] = []"
  by (simp add: clearTimeout_def timer_handle_def)

lemma trim_append_space: "trim (t @ '' '') = trim t"
proof (cases "dropWhile is_space t = []")
  case True
  then have "\<forall>c\<in>set t. is_space c" by (simp add: dropWhile_eq_Nil_conv)
  moreover have "is_space CHR '' ''" by (simp add: is_space_def)
  ultimately have "\<forall>c\<in>set (t @ '' ''). is_space c" by simp
  then have a: "dropWhile is_space (t @ '' '') = []"
    by (simp only: dropWhile_eq_Nil_conv)
  show ?thesis unfolding trim_def a True by simp
next
  case False
  then obtain c where "c \<in> set t" "\<not> is_space c"
    by (auto simp: dropWhile_eq_Nil_conv)
  then have "dropWhile is_space (t @ '' '') = dropWhile is_space t @ '' ''"
    by (simp add: dropWhile_append1)
  moreover have "is_space CHR '' ''" by (simp add: is_space_def)
  ultimately show ?thesis by (simp add: trim_def)
qed

text \<open>The final transcripts one event adds to the buffer.\<close>

lemma result_loop_accumulated:
  "snd (snd (result_loop rs (i, f, a))) =
     a @ concat (map (\<lambda>r. if snd r then fst r @ '' '' else []) rs)"
  by (induction rs arbitrary: i f a) auto

lemma onresult_timers:
  "se_timers (onresult event e) =
     (case silenceTimer e of Some h \<Rightarrow> clearTimeout h (se_timers e) | None \<Rightarrow> se_timers e) @
     [(se_next_handle e, se_clock e + SILENCE_THRESHOLD, SilenceTimeout)] \<and>
   silenceTimer (onresult event e) = Some (se_next_handle e) \<and>
   se_clock (onresult event e) = se_clock e"
  by (simp add: onresult_def startSilenceTimer_def clearSilenceTimer_def se_setTimeout_def
      Let_def split: prod.splits option.splits)

lemma onresult_utterances: "utterances (onresult event e) = utterances e"
  by (simp add: onresult_def startSilenceTimer_def clearSilenceTimer_def se_setTimeout_def
      utterances_def Let_def split: prod.splits option.splits)

lemma onresult_session:
  "isActive (onresult event e) = isActive e \<and>
   recognition_calls (onresult event e) = recognition_calls e \<and>
   endCallback (onresult event e) = endCallback e"
  by (simp add: onresult_def startSilenceTimer_def clearSilenceTimer_def se_setTimeout_def
      Let_def split: prod.splits option.splits)

lemma onresult_accumulated:
  "accumulatedText (onresult event e) =
     accumulatedText e @
     concat (map (\<lambda>r. if snd r then fst r @ '' '' else [])
               (drop (resultIndex event) (results event)))"
proof -
  obtain i f a where r: "result_loop (drop (resultIndex event) (results event))
      ([], [], accumulatedText e) = (i, f, a)"
    by (cases "result_loop (drop (resultIndex event) (results event)) ([], [], accumulatedText e)")
       auto
  have "a = accumulatedText e @
     concat (map (\<lambda>r. if snd r then fst r @ '' '' else [])
               (drop (resultIndex event) (results event)))"
    using result_loop_accumulated [of "drop (resultIndex event) (results event)" "[]" "[]"
        "accumulatedText e"] r by simp
  then show ?thesis
    using r
    by (simp add: onresult_def startSilenceTimer_def clearSilenceTimer_def se_setTimeout_def
        Let_def split: option.splits)
qed

text \<open>A state in which the silence timer is the only pending timer, armed for \<open>due\<close>.\<close>

lemma armed_elapse_short:
  assumes "se_timers e = [(h, due, SilenceTimeout)]" "se_clock e + gap < due"
  shows "se_elapse gap e = e\<lparr>se_clock := se_clock e + gap\<rparr>"
  using assms by (simp add: se_elapse_def se_advance_idle next_due_single)

lemma armed_elapse_long:
  assumes "se_timers e = [(h, due, SilenceTimeout)]" "due \<le> se_clock e + gap"
  shows "se_elapse gap e =
     (on_silence (e\<lparr>se_timers := [], se_clock := max (se_clock e) due\<rparr>))
       \<lparr>se_clock := se_clock e + gap\<rparr>"
proof -
  have n: "next_due (se_clock e + gap) (se_timers e) = Some (h, due, SilenceTimeout)"
    using assms by (simp add: next_due_single)
  define e1 where "e1 = se_fire (h, due, SilenceTimeout) e"
  have e1: "e1 = on_silence (e\<lparr>se_timers := [], se_clock := max (se_clock e) due\<rparr>)"
    using assms(1)
    by (simp add: e1_def se_fire_def timer_callback_def timer_handle_def timer_due_def
        clearTimeout_def)
  have t1: "se_timers e1 = []" and c1: "se_clock e1 = max (se_clock e) due"
    unfolding e1 by (simp_all add: on_silence_def Let_def)
  have "se_advance (se_clock e + gap) e = se_advance (se_clock e + gap) e1"
    using se_advance_fire [OF n] by (simp add: e1_def)
  also have "\<dots> = e1\<lparr>se_clock := max (se_clock e1) (se_clock e + gap)\<rparr>"
    using t1 by (simp add: se_advance_idle next_due_Nil)
  also have "\<dots> = e1\<lparr>se_clock := se_clock e + gap\<rparr>"
    using c1 assms(2) by (simp add: max_def)
  finally show ?thesis by (simp add: se_elapse_def e1)
qed

lemma idle_elapse:
  assumes "se_timers e = []"
  shows "se_elapse gap e = e\<lparr>se_clock := se_clock e + gap\<rparr>"
  using assms by (simp add: se_elapse_def se_advance_idle next_due_Nil)

lemma onresult_armed:
  assumes "se_timers e = [] \<or> (\<exists>h d. se_timers e = [(h, d, SilenceTimeout)] \<and> silenceTimer e = Some h)"
  shows "se_timers (onresult event e) =
     [(se_next_handle e, se_clock e + SILENCE_THRESHOLD, SilenceTimeout)]"
  using assms onresult_timers [of event e]
  by (auto simp: clearTimeout_def timer_handle_def split: option.splits)

lemma feed_short_gaps:
  assumes "se_timers e = [(h, se_clock e + SILENCE_THRESHOLD, SilenceTimeout)]"
    "silenceTimer e = Some h"
    "list_all (\<lambda>x. fst x < SILENCE_THRESHOLD) evs"
  shows "utterances (feed evs e) = utterances e \<and>
     isActive (feed evs e) = isActive e \<and>
     recognition_calls (feed evs e) = recognition_calls e \<and>
     endCallback (feed evs e) = endCallback e \<and>
     accumulatedText (feed evs e) =
       accumulatedText e @
       concat (map (\<lambda>x. concat (map (\<lambda>r. if snd r then fst r @ '' '' else [])
                 (drop (resultIndex (snd x)) (results (snd x))))) evs) \<and>
     (\<exists>h'. se_timers (feed evs e) =
          [(h', se_clock (feed evs e) + SILENCE_THRESHOLD, SilenceTimeout)] \<and>
        silenceTimer (feed evs e) = Some h')"
  using assms
proof (induction evs arbitrary: e h)
  case Nil
  then show ?case by simp
next
  case (Cons x evs)
  obtain gap event where x: "x = (gap, event)" by (cases x) auto
  have g: "gap < SILENCE_THRESHOLD" using Cons.prems(3) x by simp
  define e1 where "e1 = se_elapse gap e"
  have e1: "e1 = e\<lparr>se_clock := se_clock e + gap\<rparr>"
    unfolding e1_def using Cons.prems(1) g by (intro armed_elapse_short) auto
  define e2 where "e2 = onresult event e1"
  have t2: "se_timers e2 = [(se_next_handle e1, se_clock e2 + SILENCE_THRESHOLD, SilenceTimeout)]"
    and s2: "silenceTimer e2 = Some (se_next_handle e1)"
    using onresult_timers [of event e1] Cons.prems(1,2)
    by (simp_all add: e2_def e1 clearTimeout_single)
  have rest: "list_all (\<lambda>x. fst x < SILENCE_THRESHOLD) evs" using Cons.prems(3) by simp
  note ih = Cons.IH [OF t2 s2 rest]
  have "utterances e1 = utterances e" by (simp add: e1 utterances_def)
  then have u2: "utterances e2 = utterances e"
    by (simp add: e2_def onresult_utterances)
  have k2: "isActive e2 = isActive e" "recognition_calls e2 = recognition_calls e"
    "endCallback e2 = endCallback e"
    using onresult_session [of event e1] by (simp_all add: e2_def e1)
  have a2: "accumulatedText e2 = accumulatedText e @
     concat (map (\<lambda>r. if snd r then fst r @ '' '' else [])
               (drop (resultIndex event) (results event)))"
    using onresult_accumulated [of event e1] by (simp add: e2_def e1)
  have f: "feed (x # evs) e = feed evs e2" by (simp add: x e2_def e1_def)
  show ?case unfolding f using ih u2 k2 a2 x by simp
qed


lemma armed_silence:
  assumes "se_timers e = [(h, se_clock e + SILENCE_THRESHOLD, SilenceTimeout)]"
  shows "utterances (se_elapse SILENCE_THRESHOLD e) =
       utterances e @ (if trim (accumulatedText e) \<noteq> [] \<and> endCallback e
                      then [trim (accumulatedText e)] else []) \<and>
     accumulatedText (se_elapse SILENCE_THRESHOLD e) =
       (if trim (accumulatedText e) \<noteq> [] then [] else accumulatedText e) \<and>
     isActive (se_elapse SILENCE_THRESHOLD e) = isActive e \<and>
     recognition_calls (se_elapse SILENCE_THRESHOLD e) = recognition_calls e"
  using armed_elapse_long [OF assms, of SILENCE_THRESHOLD]
  by (simp add: on_silence_def utterances_def Let_def)

lemma armed_quiet:
  assumes "se_timers e = [(h, se_clock e + SILENCE_THRESHOLD, SilenceTimeout)]"
    "d < SILENCE_THRESHOLD"
  shows "utterances (se_elapse d e) = utterances e"
  using armed_elapse_short [OF assms(1), of d] assms(2) by (simp add: utterances_def)

lemma first_result_arms:
  fixes e :: WebSpeechEngine and event :: result_event and gap :: nat
  assumes "se_timers e = []"
  defines "e1 \<equiv> onresult event (se_elapse gap e)"
  shows "se_timers e1 = [(se_next_handle e, se_clock e1 + SILENCE_THRESHOLD, SilenceTimeout)]"
    and "silenceTimer e1 = Some (se_next_handle e)"
    and "utterances e1 = utterances e"
    and "accumulatedText e1 = accumulatedText e @ final_texts event"
    and "isActive e1 = isActive e" and "recognition_calls e1 = recognition_calls e"
    and "endCallback e1 = endCallback e"
proof -
  have el: "se_elapse gap e = e\<lparr>se_clock := se_clock e + gap\<rparr>"
    using assms(1) by (rule idle_elapse)
  show "se_timers e1 = [(se_next_handle e, se_clock e1 + SILENCE_THRESHOLD, SilenceTimeout)]"
    using onresult_timers [of event "se_elapse gap e"] assms(1)
    by (simp add: e1_def el clearTimeout_def split: option.splits)
  show "silenceTimer e1 = Some (se_next_handle e)"
    using onresult_timers [of event "se_elapse gap e"] by (simp add: e1_def el)
  show "utterances e1 = utterances e"
    by (simp add: e1_def onresult_utterances) (simp add: el utterances_def)
  show "accumulatedText e1 = accumulatedText e @ final_texts event"
    by (simp add: e1_def onresult_accumulated final_texts_def) (simp add: el)
  show "isActive e1 = isActive e" "recognition_calls e1 = recognition_calls e"
    "endCallback e1 = endCallback e"
    using onresult_session [of event "se_elapse gap e"] by (simp_all add: e1_def el)
qed

text \<open>Claim C4. Every recognition result cancels the silence timer of the slot and arms a
  new one, due \<open>SILENCE_THRESHOLD = 1000\<close> ms later. When that timer's callback runs on a
  buffer that is not blank, the end-of-utterance callback gets the trimmed buffer once,
  the buffer is emptied, and the engine stays active with no call on the recognition
  session; on a blank buffer nothing happens. A stream of results on an engine with no
  pending timer, each less than 1000 ms after the one before, triggers no end-of-utterance
  callback, and none in any shorter silence after it; 1000 ms of silence after the last
  result triggers exactly one, with the trimmed text of all final results since the buffer
  was last emptied. One final result with a transcript that is not blank, then 1000 ms of
  silence, gives one callback with the trimmed transcript.\<close>

theorem C4_silence_timer:
  "SILENCE_THRESHOLD = 1000 \<and>
   se_timers (onresult event e) =
     (case silenceTimer e of Some h \<Rightarrow> clearTimeout h (se_timers e) | None \<Rightarrow> se_timers e) @
     [(se_next_handle e, se_clock e + SILENCE_THRESHOLD, SilenceTimeout)] \<and>
   silenceTimer (onresult event e) = Some (se_next_handle e) \<and>
   se_callback SilenceTimeout e = on_silence e \<and>
   (trim (accumulatedText e) \<noteq> [] \<longrightarrow>
      outputs (on_silence e) =
        outputs e @ (if endCallback e then [EndOfUtterance (trim (accumulatedText e))] else []) \<and>
      accumulatedText (on_silence e) = [] \<and>
      isActive (on_silence e) = isActive e \<and>
      recognition_calls (on_silence e) = recognition_calls e) \<and>
   (trim (accumulatedText e) = [] \<longrightarrow> on_silence e = e) \<and>
   (se_timers e = [] \<and> list_all (\<lambda>x. fst x < SILENCE_THRESHOLD) evs \<longrightarrow>
      utterances (feed ((gap, event) # evs) e) = utterances e \<and>
      (\<forall>d. d < SILENCE_THRESHOLD \<longrightarrow>
         utterances (se_elapse d (feed ((gap, event) # evs) e)) = utterances e) \<and>
      accumulatedText (feed ((gap, event) # evs) e) =
        accumulatedText e @ final_texts event @ concat (map (\<lambda>x. final_texts (snd x)) evs) \<and>
      utterances (se_elapse SILENCE_THRESHOLD (feed ((gap, event) # evs) e)) =
        utterances e @
        (if trim (accumulatedText (feed ((gap, event) # evs) e)) \<noteq> [] \<and> endCallback e
         then [trim (accumulatedText (feed ((gap, event) # evs) e))] else []) \<and>
      isActive (se_elapse SILENCE_THRESHOLD (feed ((gap, event) # evs) e)) = isActive e \<and>
      recognition_calls (se_elapse SILENCE_THRESHOLD (feed ((gap, event) # evs) e)) =
        recognition_calls e) \<and>
   (se_timers e = [] \<and> accumulatedText e = [] \<and> endCallback e \<and> trim t \<noteq> [] \<longrightarrow>
      utterances (se_elapse SILENCE_THRESHOLD (onresult (final_result t) (se_elapse gap e))) =
        utterances e @ [trim t] \<and>
      accumulatedText (se_elapse SILENCE_THRESHOLD (onresult (final_result t) (se_elapse gap e)))
        = [])"
proof -
  have fire: "trim (accumulatedText e) \<noteq> [] \<longrightarrow>
      outputs (on_silence e) =
        outputs e @ (if endCallback e then [EndOfUtterance (trim (accumulatedText e))] else []) \<and>
      accumulatedText (on_silence e) = [] \<and>
      isActive (on_silence e) = isActive e \<and>
      recognition_calls (on_silence e) = recognition_calls e"
    by (simp add: on_silence_def Let_def)
  have blank: "trim (accumulatedText e) = [] \<longrightarrow> on_silence e = e"
    by (simp add: on_silence_def)
  have stream: "utterances (feed ((gap, event) # evs) e) = utterances e \<and>
      (\<forall>d. d < SILENCE_THRESHOLD \<longrightarrow>
         utterances (se_elapse d (feed ((gap, event) # evs) e)) = utterances e) \<and>
      accumulatedText (feed ((gap, event) # evs) e) =
        accumulatedText e @ final_texts event @ concat (map (\<lambda>x. final_texts (snd x)) evs) \<and>
      utterances (se_elapse SILENCE_THRESHOLD (feed ((gap, event) # evs) e)) =
        utterances e @
        (if trim (accumulatedText (feed ((gap, event) # evs) e)) \<noteq> [] \<and> endCallback e
         then [trim (accumulatedText (feed ((gap, event) # evs) e))] else []) \<and>
      isActive (se_elapse SILENCE_THRESHOLD (feed ((gap, event) # evs) e)) = isActive e \<and>
      recognition_calls (se_elapse SILENCE_THRESHOLD (feed ((gap, event) # evs) e)) =
        recognition_calls e"
    if idle: "se_timers e = []" and short: "list_all (\<lambda>x. fst x < SILENCE_THRESHOLD) evs"
  proof -
    define e1 where "e1 = onresult event (se_elapse gap e)"
    define e2 where "e2 = feed evs e1"
    note a = first_result_arms [OF idle, of event gap, folded e1_def]
    note f = feed_short_gaps [OF a(1) a(2) short, folded e2_def]
    from f obtain h' where
      armed: "se_timers e2 = [(h', se_clock e2 + SILENCE_THRESHOLD, SilenceTimeout)]"
      by blast
    have e2: "feed ((gap, event) # evs) e = e2" by (simp add: e2_def e1_def)
    have acc: "accumulatedText e2 =
        accumulatedText e @ final_texts event @ concat (map (\<lambda>x. final_texts (snd x)) evs)"
      using f a(4) by (simp add: final_texts_def)
    have "utterances e2 = utterances e" using f a(3) by simp
    moreover have "\<forall>d. d < SILENCE_THRESHOLD \<longrightarrow> utterances (se_elapse d e2) = utterances e"
      using armed_quiet [OF armed] calculation by simp
    moreover have "utterances (se_elapse SILENCE_THRESHOLD e2) =
        utterances e @ (if trim (accumulatedText e2) \<noteq> [] \<and> endCallback e
                        then [trim (accumulatedText e2)] else [])"
      using armed_silence [OF armed] f a(3,7) by simp
    moreover have "isActive (se_elapse SILENCE_THRESHOLD e2) = isActive e"
      "recognition_calls (se_elapse SILENCE_THRESHOLD e2) = recognition_calls e"
      using armed_silence [OF armed] f a(5,6) by simp_all
    ultimately show ?thesis unfolding e2 using acc by simp
  qed
  have single: "utterances (se_elapse SILENCE_THRESHOLD (onresult (final_result t) (se_elapse gap e))) =
        utterances e @ [trim t] \<and>
      accumulatedText (se_elapse SILENCE_THRESHOLD (onresult (final_result t) (se_elapse gap e)))
        = []"
    if idle: "se_timers e = []" and fresh: "accumulatedText e = []" and cb: "endCallback e"
      and t: "trim t \<noteq> []"
  proof -
    define e1 where "e1 = onresult (final_result t) (se_elapse gap e)"
    note a = first_result_arms [OF idle, of "final_result t" gap, folded e1_def]
    have "accumulatedText e1 = t @ '' ''"
      using a(4) fresh by (simp add: final_texts_def final_result_def)
    then have tr: "trim (accumulatedText e1) = trim t"
      using trim_append_space [of t] by simp
    show ?thesis
      using armed_silence [OF a(1)] tr t cb a(3,7) unfolding e1_def by simp
  qed
  have th: "SILENCE_THRESHOLD = 1000" by (simp add: SILENCE_THRESHOLD_def)
  have cbk: "se_callback SilenceTimeout e = on_silence e" by simp
  show ?thesis
    using th onresult_timers [of event e] cbk fire blank stream single by blast
qed


theorem C4_silence_timer_witness:
  "trim (accumulatedText (se_start new_engine\<lparr>accumulatedText := ''hello ''\<rparr>)) \<noteq> [] \<and>
   outputs (on_silence (se_start new_engine\<lparr>accumulatedText := ''hello ''\<rparr>)) =
     [EndOfUtterance ''hello''] \<and>
   se_timers (se_start new_engine) = [] \<and>
   list_all (\<lambda>x. fst x < SILENCE_THRESHOLD) (tl two_results) \<and>
   utterances (feed two_results (se_start new_engine)) = [] \<and>
   utterances (se_elapse SILENCE_THRESHOLD (feed two_results (se_start new_engine))) =
     [''hello world''] \<and>
   trim (accumulatedText (se_start new_engine)) = [] \<and>
   on_silence (se_start new_engine) = se_start new_engine \<and>
   accumulatedText (se_start new_engine) = [] \<and> endCallback (se_start new_engine) \<and>
   trim ''hello'' \<noteq> [] \<and>
   utterances (se_elapse SILENCE_THRESHOLD
                 (onresult (final_result ''hello'') (se_elapse 0 (se_start new_engine)))) =
     [''hello'']"
proof -
  let ?e = "se_start new_engine\<lparr>accumulatedText := ''hello ''\<rparr>"
  have tr: "trim ''hello '' = ''hello''" by code_simp
  have h1: "trim (accumulatedText ?e) \<noteq> []" using tr by simp
  have o1: "outputs (on_silence ?e) = [EndOfUtterance ''hello'']"
    using C4_silence_timer [of "final_result ''hello''" ?e "[]" 0 "''hello''"] h1 tr
    by (simp add: se_start_def new_engine_def)
  have h2: "se_timers (se_start new_engine) = []" by (simp add: se_start_def new_engine_def)
  have h3: "list_all (\<lambda>x. fst x < SILENCE_THRESHOLD) (tl two_results)"
    by (simp add: two_results_def SILENCE_THRESHOLD_def)
  have tw: "two_results = (0, final_result ''hello'') # tl two_results"
    by (simp add: two_results_def)
  have acc: "accumulatedText (se_start new_engine) @ final_texts (final_result ''hello'') @
      concat (map (\<lambda>x. final_texts (snd x)) (tl two_results)) = ''hello world ''"
    by (simp add: se_start_def new_engine_def final_texts_def final_result_def two_results_def)
  have tr2: "trim ''hello world '' = ''hello world''" by code_simp
  have u: "utterances (feed two_results (se_start new_engine)) = [] \<and>
     utterances (se_elapse SILENCE_THRESHOLD (feed two_results (se_start new_engine))) =
       [''hello world'']"
    using C4_silence_timer [of "final_result ''hello''" "se_start new_engine" "tl two_results" 0
        "''hello''"] h2 h3 acc tr2 tw
    by (simp add: se_start_def new_engine_def utterances_def)
  have h4: "trim (accumulatedText (se_start new_engine)) = []"
    "accumulatedText (se_start new_engine) = []" "endCallback (se_start new_engine)"
    by (simp_all add: se_start_def new_engine_def trim_def)
  have b: "on_silence (se_start new_engine) = se_start new_engine"
    using C4_silence_timer [of "final_result ''hello''" "se_start new_engine" "[]" 0 "''hello''"]
      h4(1)
    by blast
  have tr3: "trim ''hello'' = ''hello''" by code_simp
  then have h5: "trim ''hello'' \<noteq> []" by simp
  have one: "utterances (se_elapse SILENCE_THRESHOLD
                 (onresult (final_result ''hello'') (se_elapse 0 (se_start new_engine)))) =
     [''hello'']"
  proof -
    have "utterances (se_elapse SILENCE_THRESHOLD
                 (onresult (final_result ''hello'') (se_elapse 0 (se_start new_engine)))) =
        utterances (se_start new_engine) @ [trim ''hello'']"
      using C4_silence_timer [of "final_result ''hello''" "se_start new_engine" "[]" 0
          "''hello''"] h2 h4(2,3) h5
      by blast
    moreover have "utterances (se_start new_engine) = []"
      by (simp add: se_start_def new_engine_def utterances_def)
    ultimately show ?thesis using tr3 by simp
  qed
  show ?thesis using h1 o1 h2 h3 u h4 b h5 one by blast
qed

lemma error_restart_runs:
  assumes "se_timers e = []"
  shows "recognition_calls (se_elapse 999 (onerror ''network'' e)) = recognition_calls e \<and>
     recognition_calls (se_elapse 1000 (onerror ''network'' e)) =
       recognition_calls e @ (if isActive e then [Recognition_stop] else []) \<and>
     recognition_calls (se_elapse 1100 (onerror ''network'' e)) =
       recognition_calls e @ (if isActive e then [Recognition_stop, Recognition_start] else [])"
proof -
  define e0 where "e0 = (if errorCallback e
      then e\<lparr>outputs := outputs e @ [ErrorForwarded ''network'']\<rparr> else e)"
  define e1 where "e1 = onerror ''network'' e"
  define tm where "tm = (se_next_handle e, se_clock e + 1000, ErrorRestart)"
  have t1: "se_timers e1 = [tm]"
    using assms by (simp add: e1_def onerror_def se_setTimeout_def tm_def Let_def)
  have r1: "recognition_calls e1 = recognition_calls e" "isActive e1 = isActive e"
    "se_clock e1 = se_clock e" "se_next_handle e1 = Suc (se_next_handle e)"
    by (simp_all add: e1_def onerror_def se_setTimeout_def Let_def)
  have a: "se_elapse 999 e1 = e1\<lparr>se_clock := se_clock e1 + 999\<rparr>"
    using t1 r1 by (simp add: se_elapse_def se_advance_idle next_due_single tm_def)
  define e2 where "e2 = se_fire tm e1"
  have e2: "e2 = (if isActive e then restart (e1\<lparr>se_timers := [], se_clock := se_clock e + 1000\<rparr>)
                  else e1\<lparr>se_timers := [], se_clock := se_clock e + 1000\<rparr>)"
    using t1 r1
    by (simp add: e2_def se_fire_def tm_def timer_callback_def timer_handle_def timer_due_def
        clearTimeout_def)
  have t2: "se_timers e2 =
      (if isActive e then [(Suc (se_next_handle e), se_clock e + 1100, DelayedStart)] else [])"
    and c2: "recognition_calls e2 =
      recognition_calls e @ (if isActive e then [Recognition_stop] else [])"
    and k2: "se_clock e2 = se_clock e + 1000"
    using r1 by (simp_all add: e2 restart_def se_setTimeout_def)
  have n1000: "next_due (se_clock e1 + 1000) (se_timers e1) = Some tm"
    using t1 r1 by (simp add: next_due_single tm_def)
  have n1100: "next_due (se_clock e1 + 1100) (se_timers e1) = Some tm"
    using t1 r1 by (simp add: next_due_single tm_def)
  have b: "se_elapse 1000 e1 = e2\<lparr>se_clock := se_clock e + 1000\<rparr>"
  proof -
    have "next_due (se_clock e1 + 1000) (se_timers e2) = None"
      using t2 r1 by (simp add: next_due_single next_due_Nil)
    then have "se_advance (se_clock e1 + 1000) e2 = e2\<lparr>se_clock := se_clock e + 1000\<rparr>"
      using k2 r1 by (simp add: se_advance_idle)
    then show ?thesis
      using se_advance_fire [OF n1000] by (simp add: se_elapse_def e2_def)
  qed
  have c: "recognition_calls (se_elapse 1100 e1) =
      recognition_calls e @ (if isActive e then [Recognition_stop, Recognition_start] else [])"
  proof (cases "isActive e")
    case False
    then have "next_due (se_clock e1 + 1100) (se_timers e2) = None"
      using t2 by (simp add: next_due_Nil)
    then have "se_advance (se_clock e1 + 1100) e2 = e2\<lparr>se_clock := max (se_clock e2) (se_clock e1 + 1100)\<rparr>"
      by (rule se_advance_idle)
    then show ?thesis
      using se_advance_fire [OF n1100] c2 False by (simp add: se_elapse_def e2_def)
  next
    case True
    define td where "td = (Suc (se_next_handle e), se_clock e + 1100, DelayedStart)"
    have n2: "next_due (se_clock e1 + 1100) (se_timers e2) = Some td"
      using t2 True r1 by (simp add: next_due_single td_def)
    define e3 where "e3 = se_fire td e2"
    have t3: "se_timers e3 = []" and c3: "recognition_calls e3 =
        recognition_calls e @ [Recognition_stop, Recognition_start]"
      using t2 c2 True
      by (simp_all add: e3_def se_fire_def td_def timer_callback_def timer_handle_def
          clearTimeout_def)
    have "se_advance (se_clock e1 + 1100) e3 = e3\<lparr>se_clock := max (se_clock e3) (se_clock e1 + 1100)\<rparr>"
      using t3 by (simp add: se_advance_idle next_due_Nil)
    then have "recognition_calls (se_advance (se_clock e1 + 1100) e3) =
        recognition_calls e @ [Recognition_stop, Recognition_start]"
      using c3 by simp
    then show ?thesis
      using se_advance_fire [OF n1100] se_advance_fire [OF n2] True
      by (simp add: se_elapse_def e2_def e3_def)
  qed
  show ?thesis using a b c r1 c2 unfolding e1_def by simp
qed

text \<open>Claim C5, as the code has it. \<open>no-speech\<close> changes nothing: it is not forwarded and
  nothing is scheduled. Every other error code, \<open>network\<close> and \<open>audio-capture\<close> included,
  is passed to the error callback when one is registered. For \<open>network\<close> and
  \<open>audio-capture\<close> a timer is set in addition, due 1000 ms later, whose callback calls
  \<open>restart()\<close> if the engine is still active (stop the session, start it again 100 ms
  later) and does nothing otherwise; for the remaining codes no timer is set. The handler
  itself never touches the recognition session or the active flag.\<close>

theorem C5_onerror_policy:
  "onerror ''no-speech'' e = e \<and>
   (error \<noteq> ''no-speech'' \<longrightarrow>
      outputs (onerror error e) =
        outputs e @ (if errorCallback e then [ErrorForwarded error] else [])) \<and>
   (error = ''network'' \<or> error = ''audio-capture'' \<longrightarrow>
      se_timers (onerror error e) =
        se_timers e @ [(se_next_handle e, se_clock e + 1000, ErrorRestart)]) \<and>
   (error \<noteq> ''network'' \<and> error \<noteq> ''audio-capture'' \<longrightarrow>
      se_timers (onerror error e) = se_timers e) \<and>
   recognition_calls (onerror error e) = recognition_calls e \<and>
   isActive (onerror error e) = isActive e \<and>
   se_callback ErrorRestart e = (if isActive e then restart e else e) \<and>
   recognition_calls (restart e) = recognition_calls e @ [Recognition_stop] \<and>
   se_timers (restart e) = se_timers e @ [(se_next_handle e, se_clock e + 100, DelayedStart)] \<and>
   (se_timers e = [] \<longrightarrow>
      recognition_calls (se_elapse 999 (onerror ''network'' e)) = recognition_calls e \<and>
      recognition_calls (se_elapse 1000 (onerror ''network'' e)) =
        recognition_calls e @ (if isActive e then [Recognition_stop] else []) \<and>
      recognition_calls (se_elapse 1100 (onerror ''network'' e)) =
        recognition_calls e @ (if isActive e then [Recognition_stop, Recognition_start] else []))"
proof -
  have a: "onerror ''no-speech'' e = e" by (simp add: onerror_def)
  have b: "error \<noteq> ''no-speech'' \<longrightarrow>
      outputs (onerror error e) =
        outputs e @ (if errorCallback e then [ErrorForwarded error] else [])"
    by (simp add: onerror_def se_setTimeout_def Let_def)
  have c: "error = ''network'' \<or> error = ''audio-capture'' \<longrightarrow>
      se_timers (onerror error e) =
        se_timers e @ [(se_next_handle e, se_clock e + 1000, ErrorRestart)]"
    by (auto simp: onerror_def se_setTimeout_def Let_def)
  have d: "error \<noteq> ''network'' \<and> error \<noteq> ''audio-capture'' \<longrightarrow>
      se_timers (onerror error e) = se_timers e"
    by (simp add: onerror_def se_setTimeout_def Let_def)
  have f: "recognition_calls (onerror error e) = recognition_calls e \<and>
     isActive (onerror error e) = isActive e"
    by (simp add: onerror_def se_setTimeout_def Let_def)
  have g: "se_callback ErrorRestart e = (if isActive e then restart e else e)" by simp
  have h: "recognition_calls (restart e) = recognition_calls e @ [Recognition_stop] \<and>
     se_timers (restart e) = se_timers e @ [(se_next_handle e, se_clock e + 100, DelayedStart)]"
    by (simp add: restart_def se_setTimeout_def)
  show ?thesis using a b c d f g h error_restart_runs [of e] by blast
qed

theorem C5_onerror_policy_witness:
  "''network'' \<noteq> ''no-speech'' \<and>
   outputs (onerror ''network'' (se_start new_engine)) = [ErrorForwarded ''network''] \<and>
   se_timers (onerror ''network'' (se_start new_engine)) = [(1, 1000, ErrorRestart)] \<and>
   ''not-allowed'' \<noteq> ''network'' \<and> ''not-allowed'' \<noteq> ''audio-capture'' \<and>
   se_timers (onerror ''not-allowed'' (se_start new_engine)) = [] \<and>
   se_timers (se_start new_engine) = [] \<and>
   recognition_calls (se_elapse 1100 (onerror ''network'' (se_start new_engine))) =
     [Recognition_start, Recognition_stop, Recognition_start]"
  using C5_onerror_policy [of "se_start new_engine" "''network''"]
    C5_onerror_policy [of "se_start new_engine" "''not-allowed''"]
  by (simp add: se_start_def new_engine_def)

theorem C5_network_error_is_forwarded:
  "forwarded_errors (onerror ''network'' (se_start new_engine)) = [''network'']"
  by (simp add: forwarded_errors_def onerror_def se_setTimeout_def se_start_def new_engine_def
      Let_def)

section \<open>Gaze controller\<close>

lemma eye_advance_idle:
  "next_due target (eye_timers c) = None \<Longrightarrow>
     eye_advance target c = c\<lparr>eye_clock := max (eye_clock c) target\<rparr>"
  by (subst eye_advance.simps) simp

lemma eye_advance_fire:
  "next_due target (eye_timers c) = Some t \<Longrightarrow>
     eye_advance target c = eye_advance target (eye_fire t c)"
  by (subst eye_advance.simps) simp

lemma one_timer_schedule: "one_timer c \<Longrightarrow> one_timer (scheduleReturnToCenter d c)"
  by (auto simp: one_timer_def scheduleReturnToCenter_def Let_def clearTimeout_def
      timer_handle_def split: list.splits option.splits)

lemma one_timer_lookCenter: "one_timer c \<Longrightarrow> one_timer (lookCenter c)"
  by (auto simp: one_timer_def lookCenter_def Let_def clearTimeout_def
      split: list.splits option.splits core_model.splits)

lemma one_timer_fire:
  assumes "one_timer c" "t \<in> set (eye_timers c)"
  shows "one_timer (eye_fire t c)"
proof -
  from assms have "eye_timers c = [t]"
    by (cases "eye_timers c") (auto simp: one_timer_def)
  then have "one_timer (c\<lparr>eye_timers := clearTimeout (timer_handle t) (eye_timers c),
          eye_clock := max (eye_clock c) (timer_due t),
          callbacks_run := Suc (callbacks_run c)\<rparr>)"
    by (simp add: one_timer_def clearTimeout_def)
  then show ?thesis unfolding eye_fire_def by (rule one_timer_lookCenter)
qed

lemma one_timer_advance: "one_timer c \<Longrightarrow> one_timer (eye_advance target c)"
proof (induction target c rule: eye_advance.induct)
  case (1 target c)
  show ?case
  proof (cases "next_due target (eye_timers c)")
    case None
    then show ?thesis using "1.prems"
      by (simp add: eye_advance_idle one_timer_def split: list.splits)
  next
    case (Some t)
    then have "t \<in> set (eye_timers c)" using next_due_mem by blast
    then have "one_timer (eye_fire t c)" using "1.prems" one_timer_fire by blast
    then show ?thesis using "1.IH" [OF Some] Some by (simp add: eye_advance_fire)
  qed
qed

lemma one_timer_apply: "one_timer c \<Longrightarrow> one_timer (eye_apply c op)"
proof (cases op)
  case (SetModel m)
  assume "one_timer c"
  then show ?thesis using SetModel
    by (simp add: eye_setModel_def one_timer_def split: list.splits)
next
  case (LookLeft d)
  assume a: "one_timer c"
  then have "one_timer (c\<lparr>angle_calls := angle_calls c @ [- 15], currentDirection := D_left\<rparr>)"
    by (simp add: one_timer_def split: list.splits)
  then show ?thesis using LookLeft a
    by (auto simp: lookLeft_def intro: one_timer_schedule split: option.splits core_model.splits)
next
  case (LookRight d)
  assume a: "one_timer c"
  then have "one_timer (c\<lparr>angle_calls := angle_calls c @ [15], currentDirection := D_right\<rparr>)"
    by (simp add: one_timer_def split: list.splits)
  then show ?thesis using LookRight a
    by (auto simp: lookRight_def intro: one_timer_schedule split: option.splits core_model.splits)
next
  case LookCenter
  assume "one_timer c"
  then show ?thesis using LookCenter by (simp add: one_timer_lookCenter)
next
  case Destroy
  assume "one_timer c"
  then show ?thesis using Destroy
    by (auto simp: eye_destroy_def one_timer_def Let_def clearTimeout_def
        split: list.splits option.splits)
next
  case (Elapse d)
  assume "one_timer c"
  then show ?thesis using Elapse by (simp add: eye_elapse_def one_timer_advance)
qed

lemma one_timer_foldl: "one_timer c \<Longrightarrow> one_timer (foldl eye_apply c ops)"
  by (induction ops arbitrary: c) (simp_all add: one_timer_apply)

lemma one_timer_run: "one_timer (eye_run ops)"
  unfolding eye_run_def by (rule one_timer_foldl) (simp add: one_timer_def new_eye_def)

lemma one_timer_length: "one_timer c \<Longrightarrow> length (eye_timers c) \<le> 1"
  by (auto simp: one_timer_def split: list.splits)


lemma ready_look:
  assumes "one_timer c" "eye_model c = Some CoreReady"
  shows "eye_timers (lookLeft d c) = [(eye_next_handle c, eye_clock c + d, ReturnToCenter)]"
    and "eye_timers (lookRight d c) = [(eye_next_handle c, eye_clock c + d, ReturnToCenter)]"
    and "eye_timers (lookCenter c) = []"
    and "returnToCenterTimeout (lookLeft d c) = Some (eye_next_handle c)"
    and "returnToCenterTimeout (lookRight d c) = Some (eye_next_handle c)"
    and "returnToCenterTimeout (lookCenter c) = None"
  using assms
  by (auto simp: one_timer_def lookLeft_def lookRight_def lookCenter_def
      scheduleReturnToCenter_def Let_def clearTimeout_def split: list.splits option.splits)

lemma ready_direction:
  assumes "eye_model c = Some CoreReady"
  shows "currentDirection (lookLeft d c) = D_left \<and> angle_calls (lookLeft d c) = angle_calls c @ [- 15]"
    and "currentDirection (lookRight d c) = D_right \<and> angle_calls (lookRight d c) = angle_calls c @ [15]"
    and "currentDirection (lookCenter c) = D_center \<and> angle_calls (lookCenter c) = angle_calls c @ [0]"
  using assms
  by (auto simp: lookLeft_def lookRight_def lookCenter_def scheduleReturnToCenter_def Let_def
      split: option.splits)

lemma scenario_before:
  assumes "d < 500"
  shows "eye_run [SetModel CoreReady, LookLeft 500, Elapse d] =
     \<lparr>eye_model = Some CoreReady, currentDirection = D_left, returnToCenterTimeout = Some 1,
      eye_clock = d, eye_next_handle = 2, eye_timers = [(1, 500, ReturnToCenter)],
      angle_calls = [- 15], callbacks_run = 0\<rparr>"
proof -
  define c1 where "c1 = lookLeft 500 (eye_setModel CoreReady new_eye)"
  have c1: "c1 = \<lparr>eye_model = Some CoreReady, currentDirection = D_left,
      returnToCenterTimeout = Some 1, eye_clock = 0, eye_next_handle = 2,
      eye_timers = [(1, 500, ReturnToCenter)], angle_calls = [- 15], callbacks_run = 0\<rparr>"
    by (simp add: c1_def lookLeft_def eye_setModel_def new_eye_def scheduleReturnToCenter_def)
  have "next_due (eye_clock c1 + d) (eye_timers c1) = None"
    using assms by (simp add: c1 next_due_single)
  then have "eye_elapse d c1 = c1\<lparr>eye_clock := max (eye_clock c1) (eye_clock c1 + d)\<rparr>"
    unfolding eye_elapse_def by (rule eye_advance_idle)
  then show ?thesis by (simp add: eye_run_def c1_def [symmetric]) (simp add: c1)
qed

lemma scenario_second_look:
  assumes "d < 500"
  shows "eye_run [SetModel CoreReady, LookLeft 500, Elapse d, LookRight 500] =
     \<lparr>eye_model = Some CoreReady, currentDirection = D_right, returnToCenterTimeout = Some 2,
      eye_clock = d, eye_next_handle = 3, eye_timers = [(2, d + 500, ReturnToCenter)],
      angle_calls = [- 15, 15], callbacks_run = 0\<rparr>"
proof -
  have "eye_run [SetModel CoreReady, LookLeft 500, Elapse d, LookRight 500] =
      lookRight 500 (eye_run [SetModel CoreReady, LookLeft 500, Elapse d])"
    by (simp add: eye_run_def)
  then show ?thesis
    unfolding scenario_before [OF assms]
    by (simp add: lookRight_def scheduleReturnToCenter_def clearTimeout_def timer_handle_def)
qed

lemma scenario_after:
  assumes "d < 500" "500 \<le> idle"
  shows "eye_run [SetModel CoreReady, LookLeft 500, Elapse d, LookRight 500, Elapse idle] =
     \<lparr>eye_model = Some CoreReady, currentDirection = D_center, returnToCenterTimeout = None,
      eye_clock = d + idle, eye_next_handle = 3, eye_timers = [],
      angle_calls = [- 15, 15, 0], callbacks_run = 1\<rparr>"
proof -
  define c3 where "c3 = eye_run [SetModel CoreReady, LookLeft 500, Elapse d, LookRight 500]"
  note c3 = scenario_second_look [OF assms(1), folded c3_def]
  define t where "t = (2 :: nat, d + 500, ReturnToCenter)"
  have n: "next_due (eye_clock c3 + idle) (eye_timers c3) = Some t"
    using assms(2) by (simp add: c3 next_due_single t_def)
  define c4 where "c4 = eye_fire t c3"
  have c4: "c4 = \<lparr>eye_model = Some CoreReady, currentDirection = D_center,
      returnToCenterTimeout = None, eye_clock = d + 500, eye_next_handle = 3, eye_timers = [],
      angle_calls = [- 15, 15, 0], callbacks_run = 1\<rparr>"
    by (simp add: c4_def eye_fire_def c3 t_def lookCenter_def clearTimeout_def timer_handle_def
        timer_due_def)
  have "next_due (eye_clock c3 + idle) (eye_timers c4) = None"
    by (simp add: c4 next_due_Nil)
  then have "eye_advance (eye_clock c3 + idle) c4 =
      c4\<lparr>eye_clock := max (eye_clock c4) (eye_clock c3 + idle)\<rparr>"
    by (rule eye_advance_idle)
  then have "eye_elapse idle c3 = c4\<lparr>eye_clock := max (eye_clock c4) (eye_clock c3 + idle)\<rparr>"
    using eye_advance_fire [OF n] by (simp add: eye_elapse_def c4_def)
  moreover have "eye_run [SetModel CoreReady, LookLeft 500, Elapse d, LookRight 500, Elapse idle]
      = eye_elapse idle c3"
    by (simp add: eye_run_def c3_def)
  ultimately show ?thesis using assms(2) by (simp add: c4 c3 max_def)
qed

text \<open>Claim C8. In every state the controller can reach, through any sequence of its
  methods and any passing of time, at most one return timer is pending. With a model
  attached whose core model takes the parameter, \<open>lookLeft(d)\<close> and \<open>lookRight(d)\<close> leave
  exactly one pending timer, new, due \<open>d\<close> ms later, whose callback is \<open>lookCenter\<close> (any
  timer pending before is cancelled), and \<open>lookCenter()\<close> leaves none. With such a model,
  \<open>lookLeft(500)\<close> then \<open>lookRight(500)\<close> less than 500 ms later cancels the first timer
  (the one pending timer is the second, due 500 ms after the second call); after any
  idle time of at least 500 ms from then (1000 ms for one) the direction is center, one
  timer callback has run, the head angle was set to 0 once, and no timer is pending.
  Without a model, or with one whose core model is missing or throws, the three methods
  change nothing.\<close>

theorem C8_gaze_single_timer:
  "length (eye_timers (eye_run ops)) \<le> 1 \<and>
   (eye_model (eye_run ops) = Some CoreReady \<longrightarrow>
      eye_timers (lookLeft ms (eye_run ops)) =
        [(eye_next_handle (eye_run ops), eye_clock (eye_run ops) + ms, ReturnToCenter)] \<and>
      currentDirection (lookLeft ms (eye_run ops)) = D_left \<and>
      eye_timers (lookRight ms (eye_run ops)) =
        [(eye_next_handle (eye_run ops), eye_clock (eye_run ops) + ms, ReturnToCenter)] \<and>
      currentDirection (lookRight ms (eye_run ops)) = D_right \<and>
      eye_timers (lookCenter (eye_run ops)) = [] \<and>
      returnToCenterTimeout (lookCenter (eye_run ops)) = None \<and>
      currentDirection (lookCenter (eye_run ops)) = D_center) \<and>
   (eye_model c \<noteq> Some CoreReady \<longrightarrow>
      lookLeft ms c = c \<and> lookRight ms c = c \<and> lookCenter c = c) \<and>
   eye_fire t c =
     lookCenter (c\<lparr>eye_timers := clearTimeout (timer_handle t) (eye_timers c),
                   eye_clock := max (eye_clock c) (timer_due t),
                   callbacks_run := Suc (callbacks_run c)\<rparr>) \<and>
   (d < 500 \<and> 500 \<le> idle \<longrightarrow>
      eye_timers (eye_run [SetModel CoreReady, LookLeft 500, Elapse d, LookRight 500]) =
        [(2, d + 500, ReturnToCenter)] \<and>
      currentDirection (eye_run [SetModel CoreReady, LookLeft 500, Elapse d, LookRight 500]) =
        D_right \<and>
      currentDirection
        (eye_run [SetModel CoreReady, LookLeft 500, Elapse d, LookRight 500, Elapse idle]) =
        D_center \<and>
      callbacks_run
        (eye_run [SetModel CoreReady, LookLeft 500, Elapse d, LookRight 500, Elapse idle]) = 1 \<and>
      angle_calls
        (eye_run [SetModel CoreReady, LookLeft 500, Elapse d, LookRight 500, Elapse idle]) =
        [- 15, 15, 0] \<and>
      eye_timers
        (eye_run [SetModel CoreReady, LookLeft 500, Elapse d, LookRight 500, Elapse idle]) = [])"
proof -
  have inv: "one_timer (eye_run ops)" by (rule one_timer_run)
  have a: "length (eye_timers (eye_run ops)) \<le> 1"
    using inv by (rule one_timer_length)
  have b: "eye_model (eye_run ops) = Some CoreReady \<longrightarrow>
      eye_timers (lookLeft ms (eye_run ops)) =
        [(eye_next_handle (eye_run ops), eye_clock (eye_run ops) + ms, ReturnToCenter)] \<and>
      currentDirection (lookLeft ms (eye_run ops)) = D_left \<and>
      eye_timers (lookRight ms (eye_run ops)) =
        [(eye_next_handle (eye_run ops), eye_clock (eye_run ops) + ms, ReturnToCenter)] \<and>
      currentDirection (lookRight ms (eye_run ops)) = D_right \<and>
      eye_timers (lookCenter (eye_run ops)) = [] \<and>
      returnToCenterTimeout (lookCenter (eye_run ops)) = None \<and>
      currentDirection (lookCenter (eye_run ops)) = D_center"
    using ready_look [OF inv] ready_direction [of "eye_run ops"] by simp
  have c: "eye_model c \<noteq> Some CoreReady \<longrightarrow>
      lookLeft ms c = c \<and> lookRight ms c = c \<and> lookCenter c = c"
    by (auto simp: lookLeft_def lookRight_def lookCenter_def
        split: option.splits core_model.splits)
  have e: "d < 500 \<and> 500 \<le> idle \<longrightarrow>
      eye_timers (eye_run [SetModel CoreReady, LookLeft 500, Elapse d, LookRight 500]) =
        [(2, d + 500, ReturnToCenter)] \<and>
      currentDirection (eye_run [SetModel CoreReady, LookLeft 500, Elapse d, LookRight 500]) =
        D_right \<and>
      currentDirection
        (eye_run [SetModel CoreReady, LookLeft 500, Elapse d, LookRight 500, Elapse idle]) =
        D_center \<and>
      callbacks_run
        (eye_run [SetModel CoreReady, LookLeft 500, Elapse d, LookRight 500, Elapse idle]) = 1 \<and>
      angle_calls
        (eye_run [SetModel CoreReady, LookLeft 500, Elapse d, LookRight 500, Elapse idle]) =
        [- 15, 15, 0] \<and>
      eye_timers
        (eye_run [SetModel CoreReady, LookLeft 500, Elapse d, LookRight 500, Elapse idle]) = []"
  proof
    assume h: "d < 500 \<and> 500 \<le> idle"
    then have h1: "d < 500" and h2: "500 \<le> idle" by simp_all
    show "eye_timers (eye_run [SetModel CoreReady, LookLeft 500, Elapse d, LookRight 500]) =
        [(2, d + 500, ReturnToCenter)] \<and>
      currentDirection (eye_run [SetModel CoreReady, LookLeft 500, Elapse d, LookRight 500]) =
        D_right \<and>
      currentDirection
        (eye_run [SetModel CoreReady, LookLeft 500, Elapse d, LookRight 500, Elapse idle]) =
        D_center \<and>
      callbacks_run
        (eye_run [SetModel CoreReady, LookLeft 500, Elapse d, LookRight 500, Elapse idle]) = 1 \<and>
      angle_calls
        (eye_run [SetModel CoreReady, LookLeft 500, Elapse d, LookRight 500, Elapse idle]) =
        [- 15, 15, 0] \<and>
      eye_timers
        (eye_run [SetModel CoreReady, LookLeft 500, Elapse d, LookRight 500, Elapse idle]) = []"
      unfolding scenario_second_look [OF h1] scenario_after [OF h1 h2] by simp
  qed
  have f: "eye_fire t c =
     lookCenter (c\<lparr>eye_timers := clearTimeout (timer_handle t) (eye_timers c),
                   eye_clock := max (eye_clock c) (timer_due t),
                   callbacks_run := Suc (callbacks_run c)\<rparr>)"
    by (simp add: eye_fire_def)
  show ?thesis using a b c e f by blast
qed

theorem C8_gaze_single_timer_witness:
  "eye_model (eye_run [SetModel CoreReady]) = Some CoreReady \<and>
   eye_timers (lookLeft 500 (eye_run [SetModel CoreReady])) = [(1, 500, ReturnToCenter)] \<and>
   eye_model new_eye \<noteq> Some CoreReady \<and> lookLeft 500 new_eye = new_eye \<and>
   (200 :: nat) < 500 \<and> (500 :: nat) \<le> 1000 \<and>
   eye_timers (eye_run [SetModel CoreReady, LookLeft 500, Elapse 200, LookRight 500]) =
     [(2, 700, ReturnToCenter)] \<and>
   currentDirection
     (eye_run [SetModel CoreReady, LookLeft 500, Elapse 200, LookRight 500, Elapse 1000]) =
     D_center \<and>
   callbacks_run
     (eye_run [SetModel CoreReady, LookLeft 500, Elapse 200, LookRight 500, Elapse 1000]) = 1"
proof -
  have m: "eye_model (eye_run [SetModel CoreReady]) = Some CoreReady"
    "eye_next_handle (eye_run [SetModel CoreReady]) = 1"
    "eye_clock (eye_run [SetModel CoreReady]) = 0"
    "eye_model new_eye \<noteq> Some CoreReady"
    by (simp_all add: eye_run_def eye_setModel_def new_eye_def)
  show ?thesis
    using m C8_gaze_single_timer [of "[SetModel CoreReady]" 500 new_eye "(1, 500, ReturnToCenter)"
        200 1000]
    by simp
qed

section \<open>Motion state machine\<close>

lemma mm_advance_idle:
  "next_due target (mm_timers m) = None \<Longrightarrow>
     mm_advance target m = m\<lparr>mm_clock := max (mm_clock m) target\<rparr>"
  by (subst mm_advance.simps) simp

lemma mm_advance_fire:
  "next_due target (mm_timers m) = Some t \<Longrightarrow>
     mm_advance target m = mm_advance target (mm_fire t m)"
  by (subst mm_advance.simps) simp

lemma requestGesture_queued:
  "isTransitioning m \<Longrightarrow> requestGesture g m = m\<lparr>motionQueue := motionQueue m @ [g]\<rparr>"
  by (simp add: requestGesture_def)

lemma requestGesture_started:
  assumes "\<not> isTransitioning m"
  shows "in_flight (requestGesture g m) = in_flight m @ [transition_of m g]"
    and "render_log (requestGesture g m) =
      render_log m @
      (if mm_model m then [MotionCall (getMotionForGesture g (occurrence m g)) (loops g)] else [])"
    and "motionQueue (requestGesture g m) = motionQueue m"
    and "isTransitioning (requestGesture g m)"
    and "mm_model (requestGesture g m) = mm_model m"
    and "occurrence (requestGesture g m) g' = occurrence m g' + (if g' = g then 1 else 0)"
  using assms
  by (auto simp: requestGesture_def playMotion_begin_def transition_of_def occurrence_def
      loops_def Let_def split: option.splits)

lemma playMotion_finish_keeps:
  "in_flight (playMotion_finish p r m) = in_flight m"
  "isTransitioning (playMotion_finish p r m) = isTransitioning m"
  "motionQueue (playMotion_finish p r m) = motionQueue m"
  "mm_model (playMotion_finish p r m) = mm_model m"
  "occurrence (playMotion_finish p r m) g = occurrence m g"
  "render_log (playMotion_finish p r m) =
     render_log m @ (if pp_called p then [MotionSettled (pp_motion p) r] else [])"
  by (auto simp: playMotion_finish_def scheduleReturnToIdle_def occurrence_def Let_def
      split: outcome.splits option.splits)

lemma returnToIdle_keeps:
  "transitions (returnToIdle m) = transitions m"
  "isTransitioning (returnToIdle m) = isTransitioning m"
  by (auto simp: returnToIdle_def playMotion_begin_def transitions_def)

lemma single_flight_returnToIdle: "single_flight m \<Longrightarrow> single_flight (returnToIdle m)"
  by (simp add: single_flight_def returnToIdle_keeps)

lemma single_flight_requestGesture:
  assumes "single_flight m"
  shows "single_flight (requestGesture g m)"
proof (cases "isTransitioning m")
  case True
  then show ?thesis
    using assms by (simp add: requestGesture_queued single_flight_def transitions_def)
next
  case False
  then have "transitions m = []" using assms by (simp add: single_flight_def)
  then have "transitions (requestGesture g m) = [transition_of m g]"
    using requestGesture_started(1) [OF False, of g]
    by (simp add: transitions_def transition_of_def)
  then show ?thesis
    using requestGesture_started(4) [OF False, of g] by (simp add: single_flight_def)
qed

lemma filter_without:
  assumes "i < length xs"
  shows "\<not> P (xs ! i) \<Longrightarrow> filter P (take i xs @ drop (Suc i) xs) = filter P xs"
    and "P (xs ! i) \<Longrightarrow> length (filter P xs) \<le> 1 \<Longrightarrow>
         filter P (take i xs @ drop (Suc i) xs) = []"
proof -
  have xs: "xs = take i xs @ [xs ! i] @ drop (Suc i) xs"
    using assms by (simp add: id_take_nth_drop)
  have f: "filter P xs =
      filter P (take i xs) @ filter P [xs ! i] @ filter P (drop (Suc i) xs)"
    by (subst xs) (simp only: filter_append)
  show "\<not> P (xs ! i) \<Longrightarrow> filter P (take i xs @ drop (Suc i) xs) = filter P xs"
    using f by simp
  show "P (xs ! i) \<Longrightarrow> length (filter P xs) \<le> 1 \<Longrightarrow>
         filter P (take i xs @ drop (Suc i) xs) = []"
    using f by simp
qed

lemma single_flight_settle:
  assumes "single_flight m"
  shows "single_flight (settle i r m)"
proof (cases "i < length (in_flight m)")
  case False
  then show ?thesis using assms by (simp add: settle_def)
next
  case True
  define p where "p = in_flight m ! i"
  define m1 where "m1 = m\<lparr>in_flight := take i (in_flight m) @ drop (Suc i) (in_flight m)\<rparr>"
  define m2 where "m2 = playMotion_finish p r m1"
  have s: "settle i r m = (if pp_transition p then requestGesture_resume m2 else m2)"
    using True by (simp add: settle_def p_def m1_def m2_def Let_def)
  show ?thesis
  proof (cases "pp_transition p")
    case False
    then have "transitions m1 = transitions m"
      using filter_without(1) [OF True, of pp_transition]
      by (simp add: transitions_def m1_def p_def)
    then have "single_flight m2"
      using assms
      by (simp add: single_flight_def transitions_def m2_def playMotion_finish_keeps m1_def)
    then show ?thesis using s False by simp
  next
    case yes: True
    have "length (filter pp_transition (in_flight m)) \<le> 1"
      using assms by (simp add: single_flight_def transitions_def)
    then have "transitions m1 = []"
      using filter_without(2) [OF True, of pp_transition] yes
      by (simp add: transitions_def m1_def p_def)
    then have t2: "transitions m2 = []"
      by (simp add: transitions_def m2_def playMotion_finish_keeps)
    define m3 where "m3 = m2\<lparr>isTransitioning := False\<rparr>"
    have sf3: "single_flight m3"
      using t2 by (simp add: single_flight_def transitions_def m3_def)
    have "single_flight (processQueue m3)"
    proof (cases "motionQueue m3 = [] \<or> isTransitioning m3")
      case True
      then show ?thesis using sf3 by (simp add: processQueue_def)
    next
      case False
      have "single_flight (m3\<lparr>motionQueue := tl (motionQueue m3)\<rparr>)"
        using sf3 by (simp add: single_flight_def transitions_def)
      then show ?thesis
        using False by (simp add: processQueue_def single_flight_requestGesture)
    qed
    then show ?thesis using s yes by (simp add: requestGesture_resume_def m3_def)
  qed
qed

lemma single_flight_fire: "single_flight m \<Longrightarrow> single_flight (mm_fire t m)"
proof -
  assume a: "single_flight m"
  define m1 where "m1 = m\<lparr>mm_timers := clearTimeout (timer_handle t) (mm_timers m),
          mm_clock := max (mm_clock m) (timer_due t)\<rparr>"
  have "single_flight m1" using a by (simp add: single_flight_def transitions_def m1_def)
  then have "single_flight (idle_timeout m1)"
    by (simp add: idle_timeout_def single_flight_returnToIdle)
  then show ?thesis by (simp add: mm_fire_def m1_def)
qed

lemma single_flight_advance: "single_flight m \<Longrightarrow> single_flight (mm_advance target m)"
proof (induction target m rule: mm_advance.induct)
  case (1 target m)
  show ?case
  proof (cases "next_due target (mm_timers m)")
    case None
    then show ?thesis
      using "1.prems" by (simp add: mm_advance_idle single_flight_def transitions_def)
  next
    case (Some t)
    have "single_flight (mm_fire t m)" using "1.prems" by (rule single_flight_fire)
    then show ?thesis using "1.IH" [OF Some] Some by (simp add: mm_advance_fire)
  qed
qed

text \<open>The hard resets: \<open>stop()\<close> and \<open>destroy()\<close> empty the queue and clear the flag, and a
  play that is pending stays pending (its promise is not cancelled).\<close>

lemma stop_keeps_pending:
  "\<not> isTransitioning (mm_stop m) \<and> motionQueue (mm_stop m) = [] \<and>
   transitions (mm_stop m) = transitions m"
  by (simp add: mm_stop_def returnToIdle_def playMotion_begin_def transitions_def Let_def
      split: option.splits)

lemma destroy_keeps_pending:
  "\<not> isTransitioning (mm_destroy m) \<and> motionQueue (mm_destroy m) = [] \<and>
   transitions (mm_destroy m) = transitions m"
  using stop_keeps_pending [of m] by (simp add: mm_destroy_def transitions_def)

lemma single_flight_reset:
  assumes "transitions m = []"
  shows "single_flight (mm_stop m)" and "single_flight (mm_destroy m)"
  using assms stop_keeps_pending [of m] destroy_keeps_pending [of m]
  by (simp_all add: single_flight_def)

lemma single_flight_apply:
  assumes "single_flight m" and "is_reset op \<Longrightarrow> transitions m = []"
  shows "single_flight (mm_apply m op)"
  using assms
proof (cases op)
  case Stop
  assume "is_reset op \<Longrightarrow> transitions m = []"
  then show ?thesis using Stop by (simp add: single_flight_reset)
next
  case DestroyManager
  assume "is_reset op \<Longrightarrow> transitions m = []"
  then show ?thesis using DestroyManager by (simp add: single_flight_reset)
next
  case (RequestGesture g)
  assume "single_flight m"
  then show ?thesis using RequestGesture by (simp add: single_flight_requestGesture)
next
  case (Settle i r)
  assume "single_flight m"
  then show ?thesis using Settle by (simp add: single_flight_settle)
next
  case ReturnToIdle
  assume "single_flight m"
  then show ?thesis using ReturnToIdle by (simp add: single_flight_returnToIdle)
next
  case (SetListening b)
  assume "single_flight m"
  then show ?thesis using SetListening
    by (simp add: setListening_def single_flight_requestGesture single_flight_returnToIdle)
next
  case (SetSpeaking b)
  assume a: "single_flight m"
  define m1 where "m1 = m\<lparr>currentState := (if b then H_speaking else H_idle)\<rparr>"
  have "single_flight m1" using a by (simp add: single_flight_def transitions_def m1_def)
  then show ?thesis using SetSpeaking
    by (simp add: setSpeaking_def Let_def m1_def [symmetric] single_flight_returnToIdle)
next
  case AttachModel
  assume a: "single_flight m"
  then show ?thesis using AttachModel
    by (simp add: mm_setModel_def playMotion_begin_def single_flight_def transitions_def)
next
  case (Wait d)
  assume "single_flight m"
  then show ?thesis using Wait by (simp add: mm_elapse_def single_flight_advance)
qed

lemma single_flight_foldl:
  "single_flight m \<Longrightarrow> resets_at_rest m ops \<Longrightarrow> single_flight (foldl mm_apply m ops)"
proof (induction ops arbitrary: m)
  case Nil
  then show ?case by simp
next
  case (Cons op ops)
  have r: "is_reset op \<Longrightarrow> transitions m = []" and rest: "resets_at_rest (mm_apply m op) ops"
    using Cons.prems(2) by (simp_all split: if_splits)
  have "single_flight (mm_apply m op)"
    using Cons.prems(1) r by (rule single_flight_apply)
  then show ?case using Cons.IH rest by simp
qed

lemma single_flight_run: "resets_at_rest new_manager ops \<Longrightarrow> single_flight (mm_run ops)"
  unfolding mm_run_def
  by (rule single_flight_foldl) (simp_all add: single_flight_def transitions_def new_manager_def)


lemma settle_transition:
  fixes m :: MotionManager and i :: nat and r :: outcome
  assumes "i < length (in_flight m)" "pp_transition (in_flight m ! i)"
  defines "p \<equiv> in_flight m ! i"
  defines "others \<equiv> take i (in_flight m) @ drop (Suc i) (in_flight m)"
  defines "settled \<equiv> (if pp_called p then [MotionSettled (pp_motion p) r] else [])"
  shows "motionQueue m = [] \<Longrightarrow>
           in_flight (settle i r m) = others \<and> \<not> isTransitioning (settle i r m) \<and>
           motionQueue (settle i r m) = [] \<and>
           render_log (settle i r m) = render_log m @ settled \<and>
           mm_model (settle i r m) = mm_model m \<and>
           (\<forall>g'. occurrence (settle i r m) g' = occurrence m g')"
    and "motionQueue m = g # rest \<Longrightarrow>
           in_flight (settle i r m) = others @ [transition_of m g] \<and>
           isTransitioning (settle i r m) \<and>
           motionQueue (settle i r m) = rest \<and>
           render_log (settle i r m) =
             render_log m @ settled @
             (if mm_model m then [MotionCall (getMotionForGesture g (occurrence m g)) (loops g)]
              else []) \<and>
           mm_model (settle i r m) = mm_model m \<and>
           (\<forall>g'. occurrence (settle i r m) g' = occurrence m g' + (if g' = g then 1 else 0))"
proof -
  define m1 where "m1 = m\<lparr>in_flight := others\<rparr>"
  define m2 where "m2 = playMotion_finish p r m1"
  define m3 where "m3 = m2\<lparr>isTransitioning := False\<rparr>"
  have s: "settle i r m = processQueue m3"
    using assms(1,2)
    by (simp add: settle_def p_def others_def m1_def m2_def m3_def Let_def
        requestGesture_resume_def)
  have k: "in_flight m3 = others" "motionQueue m3 = motionQueue m" "mm_model m3 = mm_model m"
    "render_log m3 = render_log m @ settled" "\<not> isTransitioning m3"
    by (simp_all add: m3_def m2_def playMotion_finish_keeps m1_def settled_def)
  have o: "occurrence m3 g' = occurrence m g'" for g'
    using playMotion_finish_keeps(5) [of p r m1 g']
    by (simp add: m3_def m2_def occurrence_def m1_def)
  show "motionQueue m = [] \<Longrightarrow>
           in_flight (settle i r m) = others \<and> \<not> isTransitioning (settle i r m) \<and>
           motionQueue (settle i r m) = [] \<and>
           render_log (settle i r m) = render_log m @ settled \<and>
           mm_model (settle i r m) = mm_model m \<and>
           (\<forall>g'. occurrence (settle i r m) g' = occurrence m g')"
    using k o by (simp add: s processQueue_def)
  show "in_flight (settle i r m) = others @ [transition_of m g] \<and>
           isTransitioning (settle i r m) \<and>
           motionQueue (settle i r m) = rest \<and>
           render_log (settle i r m) =
             render_log m @ settled @
             (if mm_model m then [MotionCall (getMotionForGesture g (occurrence m g)) (loops g)]
              else []) \<and>
           mm_model (settle i r m) = mm_model m \<and>
           (\<forall>g'. occurrence (settle i r m) g' = occurrence m g' + (if g' = g then 1 else 0))"
    if q: "motionQueue m = g # rest"
  proof -
    define m4 where "m4 = m3\<lparr>motionQueue := rest\<rparr>"
    have p4: "processQueue m3 = requestGesture g m4"
      using k q by (simp add: processQueue_def m4_def)
    have n4: "\<not> isTransitioning m4" using k by (simp add: m4_def)
    have k4: "in_flight m4 = others" "motionQueue m4 = rest" "mm_model m4 = mm_model m"
      "render_log m4 = render_log m @ settled"
      using k by (simp_all add: m4_def)
    have o4: "occurrence m4 g' = occurrence m g'" for g'
      using o [of g'] by (simp add: m4_def occurrence_def)
    have t4: "transition_of m4 g = transition_of m g"
      using o4 k4 by (simp add: transition_of_def)
    show ?thesis
      unfolding s p4
      using requestGesture_started [OF n4, of g] k4 o4 t4 by simp
  qed
qed

text \<open>Three requests on an idle manager, then the three promises settling.\<close>

lemma three_requests:
  fixes m :: MotionManager and g1 g2 g3 :: GestureType
  assumes idle: "\<not> isTransitioning m" "motionQueue m = []" "in_flight m = []" and model: "mm_model m"
  defines "m3 \<equiv> requestGesture g3 (requestGesture g2 (requestGesture g1 m))"
  defines "c1 \<equiv> getMotionForGesture g1 (occurrence m g1)"
  defines "c2 \<equiv> getMotionForGesture g2 (occurrence m g2 + (if g2 = g1 then 1 else 0))"
  defines "c3 \<equiv> getMotionForGesture g3
                  (occurrence m g3 + (if g3 = g1 then 1 else 0) + (if g3 = g2 then 1 else 0))"
  shows "motionQueue m3 = [g2, g3]"
    and "length (in_flight m3) = 1"
    and "render_log m3 = render_log m @ [MotionCall c1 (loops g1)]"
    and "render_log (settle 0 r1 m3) =
           render_log m @ [MotionCall c1 (loops g1), MotionSettled c1 r1, MotionCall c2 (loops g2)]"
    and "motionQueue (settle 0 r1 m3) = [g3]"
    and "render_log (settle 0 r2 (settle 0 r1 m3)) =
           render_log m @ [MotionCall c1 (loops g1), MotionSettled c1 r1,
                           MotionCall c2 (loops g2), MotionSettled c2 r2,
                           MotionCall c3 (loops g3)]"
    and "render_log (settle 0 r3 (settle 0 r2 (settle 0 r1 m3))) =
           render_log m @ [MotionCall c1 (loops g1), MotionSettled c1 r1,
                           MotionCall c2 (loops g2), MotionSettled c2 r2,
                           MotionCall c3 (loops g3), MotionSettled c3 r3]"
    and "motionQueue (settle 0 r3 (settle 0 r2 (settle 0 r1 m3))) = []"
    and "in_flight (settle 0 r3 (settle 0 r2 (settle 0 r1 m3))) = []"
    and "\<not> isTransitioning (settle 0 r3 (settle 0 r2 (settle 0 r1 m3)))"
proof -
  define m1 where "m1 = requestGesture g1 m"
  note a = requestGesture_started [OF idle(1), of g1, folded m1_def]
  have f1: "in_flight m1 = [transition_of m g1]" using a(1) idle(3) by simp
  have l1: "render_log m1 = render_log m @ [MotionCall c1 (loops g1)]"
    using a(2) model by (simp add: c1_def)
  have m3: "m3 = m1\<lparr>motionQueue := [g2, g3]\<rparr>"
    using a(3,4) idle(2) by (simp add: m3_def m1_def [symmetric] requestGesture_queued)
  have k3: "in_flight m3 = [transition_of m g1]" "render_log m3 = render_log m1"
    "mm_model m3" "motionQueue m3 = [g2, g3]"
    "\<And>g'. occurrence m3 g' = occurrence m g' + (if g' = g1 then 1 else 0)"
    using f1 a(5,6) model by (simp_all add: m3 occurrence_def)
  show "motionQueue m3 = [g2, g3]" by (rule k3(4))
  show "length (in_flight m3) = 1" using k3(1) by simp
  show "render_log m3 = render_log m @ [MotionCall c1 (loops g1)]" using k3(2) l1 by simp
  have pre3: "0 < length (in_flight m3)" "pp_transition (in_flight m3 ! 0)"
    using k3(1) by (simp_all add: transition_of_def)
  define s1 where "s1 = settle 0 r1 m3"
  note b = settle_transition(2) [OF pre3 k3(4), of r1, folded s1_def]
  have t1: "transition_of m g1 = \<lparr>pp_motion = c1, pp_loop = loops g1, pp_called = True,
      pp_transition = True\<rparr>"
    using model by (simp add: transition_of_def c1_def)
  have t2: "transition_of m3 g2 = \<lparr>pp_motion = c2, pp_loop = loops g2, pp_called = True,
      pp_transition = True\<rparr>"
    using k3(3,5) by (simp add: transition_of_def c2_def)
  have f_s1: "in_flight s1 = [transition_of m3 g2]" using b k3(1) by simp
  have l_s1: "render_log s1 =
      render_log m @ [MotionCall c1 (loops g1), MotionSettled c1 r1, MotionCall c2 (loops g2)]"
    using b k3 l1 t1 by (simp add: c2_def)
  have q_s1: "motionQueue s1 = [g3]" and md1: "mm_model s1" using b k3(3) by simp_all
  have o_s1: "occurrence s1 g' =
      occurrence m g' + (if g' = g1 then 1 else 0) + (if g' = g2 then 1 else 0)" for g'
    using b k3(5) by simp
  show "render_log (settle 0 r1 m3) =
      render_log m @ [MotionCall c1 (loops g1), MotionSettled c1 r1, MotionCall c2 (loops g2)]"
    using l_s1 by (simp add: s1_def)
  show "motionQueue (settle 0 r1 m3) = [g3]" using q_s1 by (simp add: s1_def)
  have pre1: "0 < length (in_flight s1)" "pp_transition (in_flight s1 ! 0)"
    using f_s1 by (simp_all add: transition_of_def)
  define s2 where "s2 = settle 0 r2 s1"
  note c = settle_transition(2) [OF pre1 q_s1, of r2, folded s2_def]
  have t3: "transition_of s1 g3 = \<lparr>pp_motion = c3, pp_loop = loops g3, pp_called = True,
      pp_transition = True\<rparr>"
    using md1 o_s1 by (simp add: transition_of_def c3_def)
  have f_s2: "in_flight s2 = [transition_of s1 g3]" using c f_s1 by simp
  have l_s2: "render_log s2 =
      render_log m @ [MotionCall c1 (loops g1), MotionSettled c1 r1,
                      MotionCall c2 (loops g2), MotionSettled c2 r2, MotionCall c3 (loops g3)]"
    using c l_s1 f_s1 t2 md1 o_s1 by (simp add: c3_def)
  have q_s2: "motionQueue s2 = []" using c by simp
  show "render_log (settle 0 r2 (settle 0 r1 m3)) =
      render_log m @ [MotionCall c1 (loops g1), MotionSettled c1 r1,
                      MotionCall c2 (loops g2), MotionSettled c2 r2, MotionCall c3 (loops g3)]"
    using l_s2 by (simp add: s2_def s1_def)
  have pre2: "0 < length (in_flight s2)" "pp_transition (in_flight s2 ! 0)"
    using f_s2 by (simp_all add: transition_of_def)
  define s3 where "s3 = settle 0 r3 s2"
  note d = settle_transition(1) [OF pre2 q_s2, of r3, folded s3_def]
  have e3: "settle 0 r3 (settle 0 r2 (settle 0 r1 m3)) = s3"
    by (simp add: s3_def s2_def s1_def)
  show "render_log (settle 0 r3 (settle 0 r2 (settle 0 r1 m3))) =
      render_log m @ [MotionCall c1 (loops g1), MotionSettled c1 r1,
                      MotionCall c2 (loops g2), MotionSettled c2 r2,
                      MotionCall c3 (loops g3), MotionSettled c3 r3]"
    unfolding e3 using d l_s2 f_s2 t3 by simp
  show "motionQueue (settle 0 r3 (settle 0 r2 (settle 0 r1 m3))) = []"
    unfolding e3 using d by simp
  show "in_flight (settle 0 r3 (settle 0 r2 (settle 0 r1 m3))) = []"
    unfolding e3 using d f_s2 by simp
  show "\<not> isTransitioning (settle 0 r3 (settle 0 r2 (settle 0 r1 m3)))"
    unfolding e3 using d by simp
qed


text \<open>Claim C2, as the code has it. A \<open>requestGesture(g)\<close> issued while \<open>isTransitioning\<close>
  is set appends \<open>g\<close> to the queue and does nothing else: no call to the renderer, no new
  pending play. Through any sequence of the manager's methods, promises settling in any
  order and time passing, in which \<open>stop()\<close> and \<open>destroy()\<close> are called only when no
  transition is in flight, at most one transition started by \<open>requestGesture\<close> is in
  flight, the flag is set exactly when one is, and a request made while one is in flight
  is queued. (The idle plays of \<open>returnToIdle()\<close> and \<open>setModel()\<close> are no transitions: they
  do not go through the flag or the queue.) When the transition in flight settles,
  resolved or rejected, the head of the queue, if there is one, is taken off and started
  as the one new transition, the rest of the queue stays in order; with an empty queue the
  flag is cleared. Three requests on an idle manager with a model attached: the first
  starts, the other two are queued in order; as the promises settle, the renderer sees
  call, settle, call, settle, call, settle, for the clips of the three gestures in the
  order requested, and the manager ends idle with an empty queue.\<close>

theorem C2_single_transition:
  "(isTransitioning m \<longrightarrow> requestGesture g m = m\<lparr>motionQueue := motionQueue m @ [g]\<rparr>) \<and>
   (resets_at_rest new_manager ops \<longrightarrow>
      length (transitions (mm_run ops)) \<le> 1 \<and>
      isTransitioning (mm_run ops) = (transitions (mm_run ops) \<noteq> []) \<and>
      (transitions (mm_run ops) \<noteq> [] \<longrightarrow>
         requestGesture g (mm_run ops) =
           (mm_run ops)\<lparr>motionQueue := motionQueue (mm_run ops) @ [g]\<rparr>)) \<and>
   (i < length (in_flight m) \<and> pp_transition (in_flight m ! i) \<and> motionQueue m = g # rest \<longrightarrow>
      motionQueue (settle i r m) = rest \<and>
      in_flight (settle i r m) =
        take i (in_flight m) @ drop (Suc i) (in_flight m) @ [transition_of m g] \<and>
      isTransitioning (settle i r m)) \<and>
   (i < length (in_flight m) \<and> pp_transition (in_flight m ! i) \<and> motionQueue m = [] \<longrightarrow>
      motionQueue (settle i r m) = [] \<and>
      in_flight (settle i r m) = take i (in_flight m) @ drop (Suc i) (in_flight m) \<and>
      \<not> isTransitioning (settle i r m)) \<and>
   (\<not> isTransitioning m \<and> motionQueue m = [] \<and> in_flight m = [] \<and> mm_model m \<longrightarrow>
      motionQueue (three_calls g1 g2 g3 m) = [g2, g3] \<and>
      length (in_flight (three_calls g1 g2 g3 m)) = 1 \<and>
      render_log (three_calls g1 g2 g3 m) =
        render_log m @ [MotionCall (clip_after m [] g1) (loops g1)] \<and>
      render_log (three_settled r1 r2 r3 (three_calls g1 g2 g3 m)) =
        render_log m @
        [MotionCall (clip_after m [] g1) (loops g1), MotionSettled (clip_after m [] g1) r1,
         MotionCall (clip_after m [g1] g2) (loops g2), MotionSettled (clip_after m [g1] g2) r2,
         MotionCall (clip_after m [g1, g2] g3) (loops g3),
         MotionSettled (clip_after m [g1, g2] g3) r3] \<and>
      motionQueue (three_settled r1 r2 r3 (three_calls g1 g2 g3 m)) = [] \<and>
      in_flight (three_settled r1 r2 r3 (three_calls g1 g2 g3 m)) = [] \<and>
      \<not> isTransitioning (three_settled r1 r2 r3 (three_calls g1 g2 g3 m)))"
proof -
  have a: "isTransitioning m \<longrightarrow> requestGesture g m = m\<lparr>motionQueue := motionQueue m @ [g]\<rparr>"
    by (simp add: requestGesture_queued)
  have b: "length (transitions (mm_run ops)) \<le> 1 \<and>
      isTransitioning (mm_run ops) = (transitions (mm_run ops) \<noteq> []) \<and>
      (transitions (mm_run ops) \<noteq> [] \<longrightarrow>
         requestGesture g (mm_run ops) =
           (mm_run ops)\<lparr>motionQueue := motionQueue (mm_run ops) @ [g]\<rparr>)"
    if h: "resets_at_rest new_manager ops"
  proof -
    have sf: "single_flight (mm_run ops)" using h by (rule single_flight_run)
    then have f: "isTransitioning (mm_run ops) = (transitions (mm_run ops) \<noteq> [])"
      by (simp add: single_flight_def)
    have "transitions (mm_run ops) \<noteq> [] \<longrightarrow>
         requestGesture g (mm_run ops) =
           (mm_run ops)\<lparr>motionQueue := motionQueue (mm_run ops) @ [g]\<rparr>"
      using f by (simp add: requestGesture_queued)
    then show ?thesis using sf f by (simp add: single_flight_def)
  qed
  have c: "i < length (in_flight m) \<and> pp_transition (in_flight m ! i) \<and> motionQueue m = g # rest
      \<longrightarrow> motionQueue (settle i r m) = rest \<and>
      in_flight (settle i r m) =
        take i (in_flight m) @ drop (Suc i) (in_flight m) @ [transition_of m g] \<and>
      isTransitioning (settle i r m)"
    using settle_transition(2) [of i m g rest r] by simp
  have d: "i < length (in_flight m) \<and> pp_transition (in_flight m ! i) \<and> motionQueue m = [] \<longrightarrow>
      motionQueue (settle i r m) = [] \<and>
      in_flight (settle i r m) = take i (in_flight m) @ drop (Suc i) (in_flight m) \<and>
      \<not> isTransitioning (settle i r m)"
    using settle_transition(1) [of i m r] by simp
  have e: "motionQueue (three_calls g1 g2 g3 m) = [g2, g3] \<and>
      length (in_flight (three_calls g1 g2 g3 m)) = 1 \<and>
      render_log (three_calls g1 g2 g3 m) =
        render_log m @ [MotionCall (clip_after m [] g1) (loops g1)] \<and>
      render_log (three_settled r1 r2 r3 (three_calls g1 g2 g3 m)) =
        render_log m @
        [MotionCall (clip_after m [] g1) (loops g1), MotionSettled (clip_after m [] g1) r1,
         MotionCall (clip_after m [g1] g2) (loops g2), MotionSettled (clip_after m [g1] g2) r2,
         MotionCall (clip_after m [g1, g2] g3) (loops g3),
         MotionSettled (clip_after m [g1, g2] g3) r3] \<and>
      motionQueue (three_settled r1 r2 r3 (three_calls g1 g2 g3 m)) = [] \<and>
      in_flight (three_settled r1 r2 r3 (three_calls g1 g2 g3 m)) = [] \<and>
      \<not> isTransitioning (three_settled r1 r2 r3 (three_calls g1 g2 g3 m))"
    if h: "\<not> isTransitioning m \<and> motionQueue m = [] \<and> in_flight m = [] \<and> mm_model m"
  proof -
    from h have h1: "\<not> isTransitioning m" and h2: "motionQueue m = []"
      and h3: "in_flight m = []" and h4: "mm_model m" by simp_all
    have k2: "clip_after m [g1] g2 =
        getMotionForGesture g2 (occurrence m g2 + (if g2 = g1 then 1 else 0))"
      by (simp add: clip_after_def)
    have k3: "clip_after m [g1, g2] g3 =
        getMotionForGesture g3
          (occurrence m g3 + (if g3 = g1 then 1 else 0) + (if g3 = g2 then 1 else 0))"
      by (simp add: clip_after_def)
    have k1: "clip_after m [] g1 = getMotionForGesture g1 (occurrence m g1)"
      by (simp add: clip_after_def)
    show ?thesis
      unfolding three_calls_def three_settled_def k1 k2 k3
      using three_requests [OF h1 h2 h3 h4] by simp
  qed
  show ?thesis using a b c d e by blast
qed

lemma ready_manager_state:
  "ready_manager = new_manager\<lparr>mm_model := True,
      render_log := [MotionCall haru_g_idle True, MotionSettled haru_g_idle Resolved]\<rparr>"
  by (simp add: ready_manager_def settle_def mm_setModel_def playMotion_begin_def
      playMotion_finish_def new_manager_def requestGesture_resume_def processQueue_def)

lemma ready_manager_run: "mm_run [AttachModel, Settle 0 Resolved] = ready_manager"
  by (simp add: mm_run_def ready_manager_def)

theorem C2_single_transition_witness:
  "\<not> isTransitioning ready_manager \<and> motionQueue ready_manager = [] \<and>
   in_flight ready_manager = [] \<and> mm_model ready_manager \<and>
   motionQueue (three_calls G_greeting G_greeting G_emphasis ready_manager) =
     [G_greeting, G_emphasis] \<and>
   render_log (three_settled Resolved Resolved Resolved
                 (three_calls G_greeting G_greeting G_emphasis ready_manager)) =
     render_log ready_manager @
     [MotionCall haru_g_m01 False, MotionSettled haru_g_m01 Resolved,
      MotionCall haru_g_m02 False, MotionSettled haru_g_m02 Resolved,
      MotionCall haru_g_m10 False, MotionSettled haru_g_m10 Resolved] \<and>
   isTransitioning (requestGesture G_greeting ready_manager) \<and>
   motionQueue (requestGesture G_warning (requestGesture G_greeting ready_manager)) =
     [G_warning] \<and>
   0 < length (in_flight (requestGesture G_warning (requestGesture G_greeting ready_manager))) \<and>
   pp_transition
     (in_flight (requestGesture G_warning (requestGesture G_greeting ready_manager)) ! 0) \<and>
   motionQueue
     (settle 0 Resolved (requestGesture G_warning (requestGesture G_greeting ready_manager))) =
     [] \<and>
   isTransitioning
     (settle 0 Resolved (requestGesture G_warning (requestGesture G_greeting ready_manager))) \<and>
   0 < length (in_flight (requestGesture G_greeting ready_manager)) \<and>
   pp_transition (in_flight (requestGesture G_greeting ready_manager) ! 0) \<and>
   motionQueue (requestGesture G_greeting ready_manager) = [] \<and>
   \<not> isTransitioning (settle 0 Resolved (requestGesture G_greeting ready_manager)) \<and>
   resets_at_rest new_manager stop_at_rest \<and>
   length (transitions (mm_run stop_at_rest)) \<le> 1 \<and>
   transitions (mm_run stop_at_rest) \<noteq> [] \<and>
   motionQueue (requestGesture G_warning (mm_run stop_at_rest)) = [G_warning]"
proof -
  note rm = ready_manager_state
  have idle: "\<not> isTransitioning ready_manager" "motionQueue ready_manager = []"
    "in_flight ready_manager = []" "mm_model ready_manager"
    by (simp_all add: rm new_manager_def)
  define m1 where "m1 = requestGesture G_greeting ready_manager"
  have s1: "isTransitioning m1" "motionQueue m1 = []" "0 < length (in_flight m1)"
    "pp_transition (in_flight m1 ! 0)"
    using requestGesture_started [OF idle(1), of G_greeting] idle
    by (simp_all add: m1_def transition_of_def)
  define m2 where "m2 = requestGesture G_warning m1"
  have m2: "m2 = m1\<lparr>motionQueue := motionQueue m1 @ [G_warning]\<rparr>"
    using C2_single_transition [where m = m1 and g = G_warning] s1(1) by (simp add: m2_def)
  have s2: "motionQueue m2 = [G_warning]" "0 < length (in_flight m2)"
    "pp_transition (in_flight m2 ! 0)" "motionQueue m2 = G_warning # []"
    using s1 by (simp_all add: m2)
  have d2: "motionQueue (settle 0 Resolved m2) = [] \<and> isTransitioning (settle 0 Resolved m2)"
    using C2_single_transition [where m = m2 and g = G_warning and rest = "[]" and i = 0
        and r = Resolved] s2
    by blast
  have d1: "\<not> isTransitioning (settle 0 Resolved m1)"
    using C2_single_transition [where m = m1 and i = 0 and r = Resolved] s1 by blast
  have oc: "occurrence ready_manager g = 0" for g
    by (simp add: occurrence_def rm new_manager_def)
  have clips: "clip_after ready_manager [] G_greeting = haru_g_m01"
    "clip_after ready_manager [G_greeting] G_greeting = haru_g_m02"
    "clip_after ready_manager [G_greeting, G_greeting] G_emphasis = haru_g_m10"
    by (simp_all add: clip_after_def oc getMotionForGesture_def MOTION_MAPPING_def)
  have lp: "\<not> loops G_greeting" "\<not> loops G_emphasis" by (simp_all add: loops_def)
  have "motionQueue (three_calls G_greeting G_greeting G_emphasis ready_manager) =
       [G_greeting, G_emphasis] \<and>
     render_log (three_settled Resolved Resolved Resolved
                 (three_calls G_greeting G_greeting G_emphasis ready_manager)) =
     render_log ready_manager @
     [MotionCall (clip_after ready_manager [] G_greeting) (loops G_greeting),
      MotionSettled (clip_after ready_manager [] G_greeting) Resolved,
      MotionCall (clip_after ready_manager [G_greeting] G_greeting) (loops G_greeting),
      MotionSettled (clip_after ready_manager [G_greeting] G_greeting) Resolved,
      MotionCall (clip_after ready_manager [G_greeting, G_greeting] G_emphasis)
        (loops G_emphasis),
      MotionSettled (clip_after ready_manager [G_greeting, G_greeting] G_emphasis) Resolved]"
    using C2_single_transition [where m = ready_manager and ?g1.0 = G_greeting
        and ?g2.0 = G_greeting and ?g3.0 = G_emphasis and ?r1.0 = Resolved and ?r2.0 = Resolved
        and ?r3.0 = Resolved] idle
    by blast
  then have three: "motionQueue (three_calls G_greeting G_greeting G_emphasis ready_manager) =
       [G_greeting, G_emphasis] \<and>
     render_log (three_settled Resolved Resolved Resolved
                 (three_calls G_greeting G_greeting G_emphasis ready_manager)) =
     render_log ready_manager @
     [MotionCall haru_g_m01 False, MotionSettled haru_g_m01 Resolved,
      MotionCall haru_g_m02 False, MotionSettled haru_g_m02 Resolved,
      MotionCall haru_g_m10 False, MotionSettled haru_g_m10 Resolved]"
    using clips lp by simp
  have t0: "transitions ready_manager = []" using idle(3) by (simp add: transitions_def)
  have rr: "resets_at_rest new_manager stop_at_rest"
    using t0
    by (simp add: stop_at_rest_def ready_manager_def)
  define m3 where "m3 = mm_stop ready_manager"
  have run: "mm_run stop_at_rest = requestGesture G_greeting m3"
    by (simp add: mm_run_def stop_at_rest_def ready_manager_def m3_def)
  have n3: "\<not> isTransitioning m3" using stop_keeps_pending [of ready_manager] by (simp add: m3_def)
  have "in_flight (mm_run stop_at_rest) = in_flight m3 @ [transition_of m3 G_greeting]"
    unfolding run using requestGesture_started(1) [OF n3] by simp
  then have ne: "transitions (mm_run stop_at_rest) \<noteq> []"
    by (simp add: transitions_def transition_of_def)
  have q3: "motionQueue (mm_run stop_at_rest) = []"
    unfolding run using requestGesture_started(3) [OF n3, of G_greeting]
      stop_keeps_pending [of ready_manager]
    by (simp add: m3_def)
  have four: "length (transitions (mm_run stop_at_rest)) \<le> 1 \<and>
     requestGesture G_warning (mm_run stop_at_rest) =
       (mm_run stop_at_rest)\<lparr>motionQueue := motionQueue (mm_run stop_at_rest) @ [G_warning]\<rparr>"
    using C2_single_transition [where ops = stop_at_rest and g = G_warning] rr ne by blast
  then have q4: "motionQueue (requestGesture G_warning (mm_run stop_at_rest)) = [G_warning]"
    using q3 by simp
  show ?thesis
    using idle three s1 s2(1,2,3) d2 d1 rr four ne q4 unfolding m2_def m1_def by simp
qed

text \<open>\<open>stop()\<close> in the middle of a transition: the greeting is still in flight when the
  emphasis is requested, the request is not queued, and two transitions are in flight.\<close>

theorem C2_stop_mid_transition:
  "transitions (mm_run [AttachModel, Settle 0 Resolved, RequestGesture G_greeting]) \<noteq> [] \<and>
   length (transitions (mm_run stop_mid_transition)) = 2 \<and>
   motionQueue (mm_run stop_mid_transition) = []"
proof -
  have idle: "\<not> isTransitioning ready_manager" "in_flight ready_manager = []"
    by (simp_all add: ready_manager_state new_manager_def)
  define m1 where "m1 = requestGesture G_greeting ready_manager"
  have r1: "mm_run [AttachModel, Settle 0 Resolved, RequestGesture G_greeting] = m1"
    by (simp add: mm_run_def m1_def ready_manager_def)
  have t1: "transitions m1 = [transition_of ready_manager G_greeting]"
    using requestGesture_started(1) [OF idle(1), of G_greeting] idle(2)
    by (simp add: m1_def transitions_def transition_of_def)
  define m2 where "m2 = mm_stop m1"
  have k2: "\<not> isTransitioning m2" "motionQueue m2 = []" "transitions m2 = transitions m1"
    using stop_keeps_pending [of m1] by (simp_all add: m2_def)
  have r2: "mm_run stop_mid_transition = requestGesture G_emphasis m2"
    by (simp add: mm_run_def stop_mid_transition_def m2_def m1_def ready_manager_def)
  have "in_flight (requestGesture G_emphasis m2) = in_flight m2 @ [transition_of m2 G_emphasis]"
    using requestGesture_started(1) [OF k2(1)] by simp
  then have "transitions (requestGesture G_emphasis m2) =
      transitions m2 @ [transition_of m2 G_emphasis]"
    by (simp add: transitions_def transition_of_def)
  then have two: "length (transitions (mm_run stop_mid_transition)) = 2"
    using k2(3) t1 r2 by simp
  have q: "motionQueue (mm_run stop_mid_transition) = []"
    using requestGesture_started(3) [OF k2(1), of G_emphasis] k2(2) r2 by simp
  show ?thesis using r1 t1 two q by simp
qed

section \<open>Synchronization coordinator\<close>

lemma executeTeachingSequence_queued:
  "isExecuting c \<Longrightarrow> executeTeachingSequence event c = c\<lparr>eventQueue := eventQueue c @ [event]\<rparr>"
  by (simp add: executeTeachingSequence_def)

lemma executeTeachingSequence_started:
  assumes "\<not> isExecuting c"
  shows "frames (executeTeachingSequence event c) = frames c @ [(event, AwaitTTS)]"
    and "isExecuting (executeTeachingSequence event c)"
    and "eventQueue (executeTeachingSequence event c) = eventQueue c"
    and "calls (executeTeachingSequence event c) =
      calls c @ (if images event \<noteq> [] then [EyeLookLeft 4000] else []) @
      [TextToSpeech (fullText event)]"
    and "leftPanelContent (executeTeachingSequence event c) = fullText event"
    and "isSpeaking (executeTeachingSequence event c) = isSpeaking c"
    and "isTeaching (executeTeachingSequence event c) = isTeaching c"
  using assms by (simp_all add: executeTeachingSequence_def call_def suspend_def Let_def)

lemma single_execution_execute:
  assumes "single_execution c"
  shows "single_execution (executeTeachingSequence event c)"
proof (cases "isExecuting c")
  case True
  then show ?thesis
    using assms by (simp add: executeTeachingSequence_queued single_execution_def)
next
  case False
  then have "frames c = []" "eventQueue c = []" using assms by (auto simp: single_execution_def)
  then show ?thesis
    using executeTeachingSequence_started [OF False, of event]
    by (simp add: single_execution_def)
qed

text \<open>The state inside a continuation: the flag is set and no execution is suspended.\<close>

lemma single_execution_suspend:
  "isExecuting c \<Longrightarrow> frames c = [] \<Longrightarrow> single_execution (suspend event phase c)"
  by (simp add: single_execution_def suspend_def)

lemma single_execution_finally:
  assumes "frames c = []"
  shows "single_execution (finally_block c)"
proof (cases "eventQueue c")
  case Nil
  then show ?thesis using assms by (simp add: finally_block_def single_execution_def)
next
  case (Cons nxt rest)
  define c1 where "c1 = c\<lparr>isExecuting := False, isTeaching := False, eventQueue := rest\<rparr>"
  have "finally_block c = executeTeachingSequence nxt c1"
    using Cons by (simp add: finally_block_def c1_def)
  moreover have "\<not> isExecuting c1" "frames c1 = []" using assms by (simp_all add: c1_def)
  ultimately show ?thesis
    using executeTeachingSequence_started [of c1 nxt] by (simp add: single_execution_def)
qed

lemma single_execution_continue:
  assumes "isExecuting c" "frames c = []"
  shows "single_execution (continue event phase result c)"
proof -
  have k: "isExecuting (call x c) \<and> frames (call x c) = []"
    "isExecuting (c\<lparr>isSpeaking := b\<rparr>) \<and> frames (c\<lparr>isSpeaking := b\<rparr>) = []" for x b
    using assms by (simp_all add: call_def)
  have cb: "single_execution (catch_block event c)"
    unfolding catch_block_def
    by (rule single_execution_suspend) (simp_all add: call_def assms)
  have sp: "single_execution (start_playback event u c)" for u
    unfolding start_playback_def Let_def
    by (rule single_execution_suspend) (simp_all add: call_def assms)
  have fb: "single_execution (finally_block c)"
    "single_execution (finally_block (call EyeLookCenter c))"
    "single_execution (after_catch c)"
    unfolding after_catch_def
    by (rule single_execution_finally, simp add: assms call_def)+
  show ?thesis
  proof (cases phase)
    case AwaitTTS
    then show ?thesis using sp k
      by (cases result) (simp_all add: single_execution_suspend)
  next
    case AwaitTTSRetry
    then show ?thesis using sp cb by (cases result) simp_all
  next
    case AwaitAudio
    then show ?thesis using cb k by (cases result) (simp_all add: single_execution_suspend)
  next
    case AwaitGestures
    then show ?thesis using cb k by (cases result) (simp_all add: single_execution_suspend)
  next
    case AwaitIdle
    then show ?thesis using cb fb by (cases result) simp_all
  next
    case AwaitIdleAfterError
    then show ?thesis using fb by (cases result) simp_all
  qed
qed

lemma single_execution_resume:
  assumes "single_execution c"
  shows "single_execution (resume i result c)"
proof (cases "i < length (frames c)")
  case False
  then show ?thesis using assms by (simp add: resume_def)
next
  case True
  then obtain f where f: "frames c = [f]" and i: "i = 0"
    using assms by (cases "frames c") (auto simp: single_execution_def)
  obtain event phase where ep: "f = (event, phase)" by (cases f) auto
  define c1 where "c1 = c\<lparr>frames := []\<rparr>"
  have "isExecuting c1" "frames c1 = []"
    using assms f by (simp_all add: single_execution_def c1_def)
  then have "single_execution (continue event phase result c1)"
    by (rule single_execution_continue)
  then show ?thesis using f i ep by (simp add: resume_def c1_def)
qed

text \<open>\<open>interrupt()\<close> empties the queue and clears the flags; an execution that is suspended
  stays suspended. So \<open>interrupt()\<close> keeps the invariant when nothing is suspended.\<close>

lemma interrupt_keeps_suspended:
  "\<not> isExecuting (interrupt c) \<and> eventQueue (interrupt c) = [] \<and>
   \<not> isSpeaking (interrupt c) \<and> \<not> isTeaching (interrupt c) \<and>
   frames (interrupt c) = frames c"
  by (simp add: interrupt_def call_def Let_def)

lemma single_execution_interrupt:
  assumes "frames c = []"
  shows "single_execution (interrupt c)"
  using assms interrupt_keeps_suspended [of c] by (simp add: single_execution_def)

lemma single_execution_foldl:
  "single_execution c \<Longrightarrow> interrupts_at_rest c ops \<Longrightarrow>
   single_execution (foldl sync_apply c ops)"
proof (induction ops arbitrary: c)
  case Nil
  then show ?case by simp
next
  case (Cons op ops)
  have rest: "interrupts_at_rest (sync_apply c op) ops" using Cons.prems(2) by simp
  have "single_execution (sync_apply c op)"
  proof (cases op)
    case (Execute event)
    then show ?thesis using Cons.prems(1) by (simp add: single_execution_execute)
  next
    case (Settled i result)
    then show ?thesis using Cons.prems(1) by (simp add: single_execution_resume)
  next
    case Interrupt
    then have "frames c = []" using Cons.prems(2) by simp
    then show ?thesis using Interrupt by (simp add: single_execution_interrupt)
  qed
  then show ?case using Cons.IH [OF _ rest] by simp
qed

lemma single_execution_run:
  "interrupts_at_rest new_coordinator ops \<Longrightarrow> single_execution (sync_run ops)"
  unfolding sync_run_def
  by (rule single_execution_foldl) (simp_all add: single_execution_def new_coordinator_def)


lemma tts_always_fails_result:
  assumes "quiescent c"
  shows "calls (tts_always_fails event c) =
       calls c @ (if images event \<noteq> [] then [EyeLookLeft 4000] else []) @
       [TextToSpeech (fullText event), TextToSpeech (fullText event), MotionReturnToIdle,
        EyeLookCenter]"
    and "leftPanelContent (tts_always_fails event c) = SPEECH_ERROR_MESSAGE"
    and "\<not> isTeaching (tts_always_fails event c)"
    and "\<not> isSpeaking (tts_always_fails event c)"
    and "\<not> isExecuting (tts_always_fails event c)"
    and "frames (tts_always_fails event c) = []"
proof -
  from assms have q: "\<not> isExecuting c" "frames c = []" "eventQueue c = []"
    by (simp_all add: quiescent_def)
  define c1 where "c1 = executeTeachingSequence event c"
  note a = executeTeachingSequence_started [OF q(1), of event, folded c1_def]
  have f1: "frames c1 = [(event, AwaitTTS)]" using a(1) q(2) by simp
  define c2 where "c2 = resume 0 Failed c1"
  have c2: "c2 = suspend event AwaitTTSRetry
      (call (TextToSpeech (fullText event)) (c1\<lparr>frames := []\<rparr>))"
    using f1 by (simp add: c2_def resume_def)
  have f2: "frames c2 = [(event, AwaitTTSRetry)]"
    by (simp add: c2 suspend_def call_def)
  define c3 where "c3 = resume 0 Failed c2"
  have c3: "c3 = catch_block event (c2\<lparr>frames := []\<rparr>)"
    using f2 by (simp add: c3_def resume_def)
  have f3: "frames c3 = [(event, AwaitIdleAfterError)]"
    by (simp add: c3 catch_block_def suspend_def call_def)
  define c4 where "c4 = resume 0 (Fulfilled []) c3"
  have c4: "c4 = after_catch (c3\<lparr>frames := []\<rparr>)"
    using f3 by (simp add: c4_def resume_def)
  have e: "tts_always_fails event c = c4"
    by (simp add: tts_always_fails_def c4_def c3_def c2_def c1_def)
  have q3: "eventQueue c3 = []"
    using a(3) q(3) by (simp add: c3 c2 catch_block_def suspend_def call_def)
  have k3: "calls c3 = calls c1 @ [TextToSpeech (fullText event), MotionReturnToIdle]"
    by (simp add: c3 c2 catch_block_def suspend_def call_def)
  show "calls (tts_always_fails event c) =
       calls c @ (if images event \<noteq> [] then [EyeLookLeft 4000] else []) @
       [TextToSpeech (fullText event), TextToSpeech (fullText event), MotionReturnToIdle,
        EyeLookCenter]"
    unfolding e using q3 k3 a(4)
    by (simp add: c4 after_catch_def finally_block_def call_def)
  show "leftPanelContent (tts_always_fails event c) = SPEECH_ERROR_MESSAGE"
    unfolding e using q3 by (simp add: c4 after_catch_def finally_block_def call_def)
  show "\<not> isTeaching (tts_always_fails event c)"
    unfolding e using q3 by (simp add: c4 after_catch_def finally_block_def call_def)
  show "\<not> isSpeaking (tts_always_fails event c)"
    unfolding e using q3
    by (simp add: c4 after_catch_def finally_block_def call_def c3 catch_block_def suspend_def)
  show "\<not> isExecuting (tts_always_fails event c)"
    unfolding e using q3 by (simp add: c4 after_catch_def finally_block_def call_def)
  show "frames (tts_always_fails event c) = []"
    unfolding e using q3 by (simp add: c4 after_catch_def finally_block_def call_def)
qed

text \<open>Claim C1. An execution is started on a coordinator at rest, and both synthesis
  calls are rejected. Then the calls made on the collaborators are: the gaze to the left if
  there are images, the synthesis of the full text, the synthesis of the full text again,
  the motion manager's return to idle and the gaze to the centre of the \<open>catch\<close> block, and
  nothing else. So synthesis is called exactly twice, neither the gesture sequence nor the
  audio playback is started, the text display holds the fixed error message, and
  \<open>isTeaching\<close>, \<open>isSpeaking\<close> and the in-flight flag are false, whatever they were before.\<close>

theorem C1_tts_failure_aborts:
  "quiescent c \<longrightarrow>
     calls (tts_always_fails event c) =
       calls c @ (if images event \<noteq> [] then [EyeLookLeft 4000] else []) @
       [TextToSpeech (fullText event), TextToSpeech (fullText event), MotionReturnToIdle,
        EyeLookCenter] \<and>
     length (filter is_synthesis (calls (tts_always_fails event c))) =
       length (filter is_synthesis (calls c)) + 2 \<and>
     filter is_playback (calls (tts_always_fails event c)) = filter is_playback (calls c) \<and>
     leftPanelContent (tts_always_fails event c) = SPEECH_ERROR_MESSAGE \<and>
     \<not> isTeaching (tts_always_fails event c) \<and>
     \<not> isSpeaking (tts_always_fails event c) \<and>
     \<not> isExecuting (tts_always_fails event c) \<and>
     frames (tts_always_fails event c) = []"
proof
  assume q: "quiescent c"
  note r = tts_always_fails_result [OF q, of event]
  have n: "length (filter is_synthesis (calls (tts_always_fails event c))) =
       length (filter is_synthesis (calls c)) + 2"
    unfolding r(1) by (simp add: is_synthesis_def)
  have p: "filter is_playback (calls (tts_always_fails event c)) = filter is_playback (calls c)"
    unfolding r(1) by (simp add: is_playback_def)
  show "calls (tts_always_fails event c) =
       calls c @ (if images event \<noteq> [] then [EyeLookLeft 4000] else []) @
       [TextToSpeech (fullText event), TextToSpeech (fullText event), MotionReturnToIdle,
        EyeLookCenter] \<and>
     length (filter is_synthesis (calls (tts_always_fails event c))) =
       length (filter is_synthesis (calls c)) + 2 \<and>
     filter is_playback (calls (tts_always_fails event c)) = filter is_playback (calls c) \<and>
     leftPanelContent (tts_always_fails event c) = SPEECH_ERROR_MESSAGE \<and>
     \<not> isTeaching (tts_always_fails event c) \<and>
     \<not> isSpeaking (tts_always_fails event c) \<and>
     \<not> isExecuting (tts_always_fails event c) \<and>
     frames (tts_always_fails event c) = []"
    using r n p by blast
qed

theorem C1_tts_failure_aborts_witness:
  "quiescent (new_coordinator\<lparr>isTeaching := True\<rparr>) \<and>
   calls (tts_always_fails (plain_event ''Hello there.'') (new_coordinator\<lparr>isTeaching := True\<rparr>)) =
     [TextToSpeech ''Hello there.'', TextToSpeech ''Hello there.'', MotionReturnToIdle,
      EyeLookCenter] \<and>
   leftPanelContent
     (tts_always_fails (plain_event ''Hello there.'') (new_coordinator\<lparr>isTeaching := True\<rparr>)) =
     SPEECH_ERROR_MESSAGE \<and>
   \<not> isTeaching
     (tts_always_fails (plain_event ''Hello there.'') (new_coordinator\<lparr>isTeaching := True\<rparr>))"
proof -
  have q: "quiescent (new_coordinator\<lparr>isTeaching := True\<rparr>)"
    by (simp add: quiescent_def new_coordinator_def)
  show ?thesis
    using q C1_tts_failure_aborts [of "new_coordinator\<lparr>isTeaching := True\<rparr>"
        "plain_event ''Hello there.''"]
    by (simp add: new_coordinator_def plain_event_def)
qed

lemma completion_step:
  assumes "frames c = [(event, phase)]"
    and "(phase = AwaitIdle \<and> result = Fulfilled v) \<or> phase = AwaitIdleAfterError"
  shows "eventQueue c = [] \<Longrightarrow>
           frames (resume 0 result c) = [] \<and> \<not> isExecuting (resume 0 result c) \<and>
           eventQueue (resume 0 result c) = [] \<and> \<not> isTeaching (resume 0 result c)"
    and "eventQueue c = nxt # rest \<Longrightarrow>
           frames (resume 0 result c) = [(nxt, AwaitTTS)] \<and> isExecuting (resume 0 result c) \<and>
           eventQueue (resume 0 result c) = rest \<and> \<not> isTeaching (resume 0 result c) \<and>
           leftPanelContent (resume 0 result c) = fullText nxt \<and>
           last (calls (resume 0 result c)) = TextToSpeech (fullText nxt)"
proof -
  define c1 where "c1 = c\<lparr>frames := []\<rparr>"
  have r: "resume 0 result c = continue event phase result c1"
    using assms(1) by (simp add: resume_def c1_def)
  obtain c2 where c2: "continue event phase result c1 = finally_block c2"
    and k2: "frames c2 = []" "eventQueue c2 = eventQueue c"
  proof (cases "phase = AwaitIdle")
    case True
    then have "result = Fulfilled v" using assms(2) by auto
    then have "continue event phase result c1 = finally_block (call EyeLookCenter c1)"
      using True by simp
    then show ?thesis using that [of "call EyeLookCenter c1"] by (simp add: call_def c1_def)
  next
    case False
    then have ph: "phase = AwaitIdleAfterError" using assms(2) by auto
    show ?thesis
    proof (cases result)
      case (Fulfilled u)
      then have "continue event phase result c1 =
          finally_block ((call EyeLookCenter c1)\<lparr>leftPanelContent := SPEECH_ERROR_MESSAGE\<rparr>)"
        using ph by (simp add: after_catch_def)
      then show ?thesis
        using that [of "(call EyeLookCenter c1)\<lparr>leftPanelContent := SPEECH_ERROR_MESSAGE\<rparr>"]
        by (simp add: call_def c1_def)
    next
      case Failed
      then have "continue event phase result c1 = finally_block c1" using ph by simp
      then show ?thesis using that [of c1] by (simp add: c1_def)
    qed
  qed
  show "eventQueue c = [] \<Longrightarrow>
           frames (resume 0 result c) = [] \<and> \<not> isExecuting (resume 0 result c) \<and>
           eventQueue (resume 0 result c) = [] \<and> \<not> isTeaching (resume 0 result c)"
    unfolding r c2 using k2 by (simp add: finally_block_def)
  show "frames (resume 0 result c) = [(nxt, AwaitTTS)] \<and> isExecuting (resume 0 result c) \<and>
           eventQueue (resume 0 result c) = rest \<and> \<not> isTeaching (resume 0 result c) \<and>
           leftPanelContent (resume 0 result c) = fullText nxt \<and>
           last (calls (resume 0 result c)) = TextToSpeech (fullText nxt)"
    if q: "eventQueue c = nxt # rest"
  proof -
    define c3 where "c3 = c2\<lparr>isExecuting := False, isTeaching := False, eventQueue := rest\<rparr>"
    have fb: "finally_block c2 = executeTeachingSequence nxt c3"
      using k2 q by (simp add: finally_block_def c3_def)
    have n3: "\<not> isExecuting c3" and k3: "frames c3 = []" "eventQueue c3 = rest"
      "\<not> isTeaching c3"
      using k2 by (simp_all add: c3_def)
    show ?thesis
      unfolding r c2 fb
      using executeTeachingSequence_started [OF n3, of nxt] k3 by simp
  qed
qed

text \<open>Claim C3, as the code has it. A call of \<open>executeTeachingSequence\<close> while the in-flight
  flag is set appends the request to the end of the queue and does nothing else: no
  collaborator is called and no execution is started. Through any sequence of calls of
  \<open>executeTeachingSequence\<close>, awaited promises settling and calls of \<open>interrupt()\<close>, in which
  \<open>interrupt()\<close> is called only when no execution is suspended, at most one execution is
  under way, the flag is set exactly when one is, and a call made while one is under way
  is queued. When the running execution reaches its \<open>finally\<close> block, after \<open>returnToIdle\<close>
  on the success path or after the \<open>catch\<close> block on a failure, the request at the head of
  the queue, if any, is taken off and started (text published, synthesis requested), the
  rest of the queue keeps its order; with an empty queue the flag is cleared.\<close>

theorem C3_single_flight_queue:
  "(isExecuting c \<longrightarrow>
      executeTeachingSequence event c = c\<lparr>eventQueue := eventQueue c @ [event]\<rparr>) \<and>
   (interrupts_at_rest new_coordinator ops \<longrightarrow>
      length (frames (sync_run ops)) \<le> 1 \<and>
      isExecuting (sync_run ops) = (frames (sync_run ops) \<noteq> []) \<and>
      (frames (sync_run ops) \<noteq> [] \<longrightarrow>
         executeTeachingSequence req (sync_run ops) =
           (sync_run ops)\<lparr>eventQueue := eventQueue (sync_run ops) @ [req]\<rparr>)) \<and>
   (frames c = [(event, phase)] \<and>
    ((phase = AwaitIdle \<and> result = Fulfilled v) \<or> phase = AwaitIdleAfterError) \<and>
    eventQueue c = nxt # rest \<longrightarrow>
      frames (resume 0 result c) = [(nxt, AwaitTTS)] \<and> isExecuting (resume 0 result c) \<and>
      eventQueue (resume 0 result c) = rest \<and>
      leftPanelContent (resume 0 result c) = fullText nxt \<and>
      last (calls (resume 0 result c)) = TextToSpeech (fullText nxt)) \<and>
   (frames c = [(event, phase)] \<and>
    ((phase = AwaitIdle \<and> result = Fulfilled v) \<or> phase = AwaitIdleAfterError) \<and>
    eventQueue c = [] \<longrightarrow>
      frames (resume 0 result c) = [] \<and> \<not> isExecuting (resume 0 result c) \<and>
      eventQueue (resume 0 result c) = [])"
proof -
  have a: "isExecuting c \<longrightarrow>
      executeTeachingSequence event c = c\<lparr>eventQueue := eventQueue c @ [event]\<rparr>"
    by (simp add: executeTeachingSequence_queued)
  have b: "length (frames (sync_run ops)) \<le> 1 \<and>
     isExecuting (sync_run ops) = (frames (sync_run ops) \<noteq> []) \<and>
     (frames (sync_run ops) \<noteq> [] \<longrightarrow>
         executeTeachingSequence req (sync_run ops) =
           (sync_run ops)\<lparr>eventQueue := eventQueue (sync_run ops) @ [req]\<rparr>)"
    if h: "interrupts_at_rest new_coordinator ops"
  proof -
    have se: "single_execution (sync_run ops)" using h by (rule single_execution_run)
    then have f: "isExecuting (sync_run ops) = (frames (sync_run ops) \<noteq> [])"
      by (simp add: single_execution_def)
    have "frames (sync_run ops) \<noteq> [] \<longrightarrow>
         executeTeachingSequence req (sync_run ops) =
           (sync_run ops)\<lparr>eventQueue := eventQueue (sync_run ops) @ [req]\<rparr>"
      using f by (simp add: executeTeachingSequence_queued)
    then show ?thesis using se f by (simp add: single_execution_def)
  qed
  have d: "frames c = [(event, phase)] \<and>
    ((phase = AwaitIdle \<and> result = Fulfilled v) \<or> phase = AwaitIdleAfterError) \<and>
    eventQueue c = nxt # rest \<longrightarrow>
      frames (resume 0 result c) = [(nxt, AwaitTTS)] \<and> isExecuting (resume 0 result c) \<and>
      eventQueue (resume 0 result c) = rest \<and>
      leftPanelContent (resume 0 result c) = fullText nxt \<and>
      last (calls (resume 0 result c)) = TextToSpeech (fullText nxt)"
    using completion_step(2) [of c event phase result v nxt rest] by blast
  have e: "frames c = [(event, phase)] \<and>
    ((phase = AwaitIdle \<and> result = Fulfilled v) \<or> phase = AwaitIdleAfterError) \<and>
    eventQueue c = [] \<longrightarrow>
      frames (resume 0 result c) = [] \<and> \<not> isExecuting (resume 0 result c) \<and>
      eventQueue (resume 0 result c) = []"
    using completion_step(1) [of c event phase result v] by blast
  show ?thesis using a b d e by blast
qed


theorem C3_single_flight_queue_witness:
  "isExecuting (sync_run [Execute request_A]) \<and>
   eventQueue (executeTeachingSequence request_B (sync_run [Execute request_A])) = [request_B] \<and>
   frames (executeTeachingSequence request_B (sync_run [Execute request_A])) =
     [(request_A, AwaitTTS)] \<and>
   frames A_finishing_B_queued = [(request_A, AwaitIdle)] \<and>
   eventQueue A_finishing_B_queued = [request_B] \<and>
   frames (resume 0 (Fulfilled []) A_finishing_B_queued) = [(request_B, AwaitTTS)] \<and>
   eventQueue (resume 0 (Fulfilled []) A_finishing_B_queued) = [] \<and>
   frames A_failing = [(request_A, AwaitIdleAfterError)] \<and>
   eventQueue A_failing = [] \<and>
   \<not> isExecuting (resume 0 (Fulfilled []) A_failing) \<and>
   interrupts_at_rest new_coordinator interrupt_at_rest \<and>
   frames (sync_run interrupt_at_rest) = [(request_A, AwaitTTS)] \<and>
   eventQueue (sync_run interrupt_at_rest) = [request_B] \<and>
   eventQueue (executeTeachingSequence request_B (sync_run interrupt_at_rest)) =
     [request_B, request_B]"
proof -
  define c1 where "c1 = sync_run [Execute request_A]"
  have c1: "isExecuting c1" "frames c1 = [(request_A, AwaitTTS)]" "eventQueue c1 = []"
    by (simp_all add: c1_def sync_run_def executeTeachingSequence_def new_coordinator_def
        call_def suspend_def request_A_def plain_event_def)
  have ir: "interrupts_at_rest new_coordinator interrupt_at_rest"
    by (simp add: interrupt_at_rest_def new_coordinator_def)
  have i1: "frames (sync_run interrupt_at_rest) = [(request_A, AwaitTTS)]"
    "eventQueue (sync_run interrupt_at_rest) = [request_B]"
    by (simp_all add: interrupt_at_rest_def sync_run_def interrupt_def
        executeTeachingSequence_def new_coordinator_def call_def suspend_def request_A_def
        plain_event_def)
  have ne: "frames (sync_run interrupt_at_rest) \<noteq> []" using i1(1) by simp
  have i2: "executeTeachingSequence request_B (sync_run interrupt_at_rest) =
      (sync_run interrupt_at_rest)
        \<lparr>eventQueue := eventQueue (sync_run interrupt_at_rest) @ [request_B]\<rparr>"
    using C3_single_flight_queue [where ops = interrupt_at_rest and req = request_B] ir ne
    by blast
  have i3: "eventQueue (executeTeachingSequence request_B (sync_run interrupt_at_rest)) =
      [request_B, request_B]"
    unfolding i2 using i1(2) by simp
  have q: "executeTeachingSequence request_B c1 = c1\<lparr>eventQueue := eventQueue c1 @ [request_B]\<rparr>"
    using C3_single_flight_queue [where c = c1 and event = request_B] c1(1) by blast
  have a: "frames A_finishing_B_queued = [(request_A, AwaitIdle)]"
    "eventQueue A_finishing_B_queued = [request_B]"
    by (simp_all add: A_finishing_B_queued_def sync_run_def executeTeachingSequence_def
        new_coordinator_def call_def suspend_def resume_def start_playback_def
        request_A_def plain_event_def)
  have a2: "eventQueue A_finishing_B_queued = request_B # []" using a(2) by simp
  have b: "frames (resume 0 (Fulfilled []) A_finishing_B_queued) = [(request_B, AwaitTTS)] \<and>
      eventQueue (resume 0 (Fulfilled []) A_finishing_B_queued) = []"
    using C3_single_flight_queue [where c = A_finishing_B_queued and event = request_A
        and phase = AwaitIdle and result = "Fulfilled []" and v = "[]" and nxt = request_B
        and rest = "[]"] a(1) a2
    by blast
  have f: "frames A_failing = [(request_A, AwaitIdleAfterError)]" "eventQueue A_failing = []"
    by (simp_all add: A_failing_def sync_run_def executeTeachingSequence_def
        new_coordinator_def call_def suspend_def resume_def catch_block_def
        request_A_def plain_event_def)
  have g: "\<not> isExecuting (resume 0 (Fulfilled []) A_failing)"
    using C3_single_flight_queue [where c = A_failing and event = request_A
        and phase = AwaitIdleAfterError and result = "Fulfilled []" and v = "[]"] f
    by blast
  show ?thesis using c1 q a b f g ir i1 i3 unfolding c1_def by simp
qed

text \<open>\<open>interrupt()\<close> in the middle of an execution: request A is still suspended at its
  first \<open>await\<close> when request B is submitted; B is not queued, it starts at once, and two
  executions are under way, each with its synthesis requested.\<close>

theorem C3_interrupt_mid_execution:
  "frames (sync_run [Execute request_A]) \<noteq> [] \<and>
   frames (sync_run interrupt_mid_execution) =
     [(request_A, AwaitTTS), (request_B, AwaitTTS)] \<and>
   length (frames (sync_run interrupt_mid_execution)) = 2 \<and>
   eventQueue (sync_run interrupt_mid_execution) = [] \<and>
   filter is_synthesis (calls (sync_run interrupt_mid_execution)) =
     [TextToSpeech ''A.'', TextToSpeech ''B.'']"
  by (simp add: interrupt_mid_execution_def sync_run_def interrupt_def
      executeTeachingSequence_def new_coordinator_def call_def suspend_def request_A_def
      request_B_def plain_event_def is_synthesis_def)

end
